theory Spec2Isabelle
  imports Main "HOL-Library.Word" "HOL-Library.Sublist"
begin

section \<open>Connect planner and USB host power-cycle supervisor\<close>

text \<open>
  A shallow embedding of \<^verbatim>\<open>src/connect/planner.cpp\<close> (the Planner of the Connect
  client) and of the namespace \<^verbatim>\<open>usbh_power_cycle\<close> of the USB host glue code.
  Member functions take the object they mutate and return the updated one. Everything the
  code asks of its collaborators (clock, printer, transfer monitor, file system, download
  engine) is read from a \<open>World\<close> value; calls that act on a collaborator are also
  recorded, in call order, in the list a handler returns. An \<^verbatim>\<open>assert\<close> that
  fails is the result \<open>Inl AssertionFailed\<close>.
\<close>

subsection \<open>Scalar types\<close>

text \<open>
  Modelled from the spec: \<^verbatim>\<open>planner.hpp\<close> and the headers declaring the scalar types
  are absent. Timestamps and durations are unsigned wrapping millisecond counters (32 bits,
  as \<^verbatim>\<open>ticks_ms()\<close> is used in the USB code); command and transfer ids are opaque integers.
\<close>

type_synonym Timestamp = "32 word"
type_synonym Duration = "32 word"
type_synonym CommandId = "32 word"
type_synonym TransferId = "32 word"

definition COOLDOWN_BASE :: Duration where
  "COOLDOWN_BASE = 100"

definition COOLDOWN_MAX :: Duration where
  "COOLDOWN_MAX = 1000 * 60"

definition TELEMETRY_INTERVAL_LONG :: Duration where
  "TELEMETRY_INTERVAL_LONG = 1000 * 4"

definition TELEMETRY_INTERVAL_SHORT :: Duration where
  "TELEMETRY_INTERVAL_SHORT = 1000"

definition RECONNECT_AFTER :: Duration where
  "RECONNECT_AFTER = 1000 * 10"

definition GIVE_UP_AFTER_ATTEMPTS :: "8 word" where
  "GIVE_UP_AFTER_ATTEMPTS = 5"

subsection \<open>C strings\<close>

text \<open>
  A C string is the list of its characters before the terminating NUL. The comparison
  functions return the sign of the difference at the first position where the strings
  differ, the end of a string counting as smaller than any character.
\<close>

fun strncmp :: "string \<Rightarrow> string \<Rightarrow> nat \<Rightarrow> int" where
  "strncmp _ _ 0 = 0"
| "strncmp [] [] (Suc n) = 0"
| "strncmp [] (y # ys) (Suc n) = - 1"
| "strncmp (x # xs) [] (Suc n) = 1"
| "strncmp (x # xs) (y # ys) (Suc n) =
     (if x = y then strncmp xs ys n
      else if (of_char x :: nat) < of_char y then - 1 else 1)"

fun strcmp :: "string \<Rightarrow> string \<Rightarrow> int" where
  "strcmp [] [] = 0"
| "strcmp [] (y # ys) = - 1"
| "strcmp (x # xs) [] = 1"
| "strcmp (x # xs) (y # ys) =
     (if x = y then strcmp xs ys
      else if (of_char x :: nat) < of_char y then - 1 else 1)"

text \<open>\<^verbatim>\<open>strstr\<close>: the offset of the first occurrence of the needle, \<open>None\<close> for a null pointer.\<close>

fun strstr :: "string \<Rightarrow> string \<Rightarrow> nat option" where
  "strstr [] needle = (if needle = [] then Some 0 else None)"
| "strstr (h # hs) needle =
     (if strncmp (h # hs) needle (length needle) = 0 then Some 0
      else map_option Suc (strstr hs needle))"

definition path_allowed :: "string \<Rightarrow> bool" where
  "path_allowed path =
     (let usb = ''/usb/'';
          is_on_usb = (strncmp path usb (length usb) = 0 \<or> strcmp path ''/usb'' = 0);
          contains_upper = (strstr path ''/../'' \<noteq> None)
      in is_on_usb \<and> \<not> contains_upper)"

text \<open>The decimal rendering \<^verbatim>\<open>printf\<close> gives an unsigned integer.\<close>

fun decimal :: "nat \<Rightarrow> string" where
  "decimal n =
     (if n < 10 then [''0123456789'' ! n]
      else decimal (n div 10) @ [''0123456789'' ! (n mod 10)])"

declare decimal.simps [simp del]

subsection \<open>Events, commands and actions\<close>

datatype EventType =
  Info | Accepted | Rejected | JobInfo | FileInfo | TransferInfo | Finished | Failed
  | TransferStopped | TransferAborted | TransferFinished

text \<open>
  Modelled from the spec: the declaration of \<^verbatim>\<open>Event\<close> is absent; the fields are those
  of the spec's data model, in the order the aggregate initialisers of the source fill them
  (type, command id, job id, path, transfer id, reason), a null \<^verbatim>\<open>reason\<close> being \<open>None\<close>.
\<close>

record Event =
  type :: EventType
  command_id :: "CommandId option"
  job_id :: "16 word option"
  path :: "string option"
  transfer_id :: "TransferId option"
  reason :: "string option"
  info_rescan_files :: bool
  start_cmd_id :: "CommandId option"

text \<open>\<^verbatim>\<open>Event { t }\<close>: every field but the type at its default.\<close>

definition Event_of :: "EventType \<Rightarrow> Event" where
  "Event_of t =
     \<lparr>type = t, command_id = None, job_id = None, path = None, transfer_id = None,
      reason = None, info_rescan_files = False, start_cmd_id = None\<rparr>"

text \<open>\<^verbatim>\<open>Event { t, id }\<close>.\<close>

definition Event_id :: "EventType \<Rightarrow> CommandId \<Rightarrow> Event" where
  "Event_id t i = (Event_of t)\<lparr>command_id := Some i\<rparr>"

text \<open>\<^verbatim>\<open>Event { EventType::Rejected, id, nullopt, nullopt, nullopt, r }\<close>.\<close>

definition Event_rejected :: "CommandId \<Rightarrow> string \<Rightarrow> Event" where
  "Event_rejected i r = (Event_of Rejected)\<lparr>command_id := Some i, reason := Some r\<rparr>"

record BackgroundGcode =
  gcode :: string
  gcode_size :: nat
  position :: nat

record BackgroundCommand =
  bg_id :: CommandId
  bg_command :: BackgroundGcode

text \<open>The download handle is opaque to the Planner; it is told apart by a number.\<close>

datatype Download = Download nat

datatype CommandData =
  UnknownCommand
  | BrokenCommand string
  | GcodeTooLarge
  | ProcessingOtherCommand
  | ProcessingThisCommand
  | Gcode string nat
  | PausePrint
  | ResumePrint
  | StopPrint
  | StartPrint string
  | SendInfo
  | SendJobInfo "16 word"
  | SendFileInfo string
  | SendTransferInfo
  | SetPrinterReady
  | CancelPrinterReady
  | StartConnectDownload (dl_path: string) (dl_team: "64 word") (dl_hash: string)

record Command =
  cmd_id :: CommandId
  command_data :: CommandData

datatype Sleep =
  Sleep (milliseconds: Duration) (background_cmd: "BackgroundGcode option")
    (sleep_download: "Download option")

datatype Action = ActEvent Event | SendTelemetry bool | ActSleep Sleep

datatype ActionResult = Ok | Failed_result | Refused

text \<open>The declaration of \<^verbatim>\<open>BackgroundResult\<close> is absent; the assertion in
  \<^verbatim>\<open>background_done\<close> tells Success and Failure from whatever else it holds.\<close>

datatype BackgroundResult = Success | Failure | Other

datatype Error = AssertionFailed

subsection \<open>Collaborators\<close>

text \<open>
  Modelled from the spec: the change tracker's header is absent. It keeps the last
  recorded hash and a dirty flag; \<open>set_hash\<close> records a differing hash, raises the flag
  then, and reports the flag, so that a tracker marked dirty reports a change on the next
  probe (the comment in \<^verbatim>\<open>Planner::reset\<close>).
\<close>

record Tracked =
  hash :: "32 word"
  dirty :: bool

definition set_hash :: "32 word \<Rightarrow> Tracked \<Rightarrow> bool \<times> Tracked" where
  "set_hash new_hash t =
     (let t' = (if new_hash \<noteq> hash t then t\<lparr>hash := new_hash, dirty := True\<rparr> else t)
      in (dirty t', t'))"

definition mark_dirty :: "Tracked \<Rightarrow> Tracked" where
  "mark_dirty t = t\<lparr>dirty := True\<rparr>"

definition mark_clean :: "Tracked \<Rightarrow> Tracked" where
  "mark_clean t = t\<lparr>dirty := False\<rparr>"

definition is_dirty :: "Tracked \<Rightarrow> bool" where
  "is_dirty t = dirty t"

datatype Outcome = Outcome_Finished | Outcome_Error | Outcome_Stopped

datatype JobControl = Pause | Resume | Stop

record Config =
  host :: string
  port :: "16 word"
  token :: string
  tls :: bool

record Request =
  req_host :: string
  req_port :: "16 word"
  req_url_path :: string
  req_dest_path :: string
  req_token :: string
  req_fingerprint :: string
  req_fingerprint_size :: nat

datatype DownloadResult =
  Started Download | NoTransferSlot | AlreadyExists | RefusedRequest | Storage string

text \<open>
  What the collaborators answer during one call of a Planner function: the clock, the
  printer, the file system (\<^verbatim>\<open>stat\<close>), the download engine and the transfer monitor.
\<close>

record World =
  now :: Timestamp
  info_fingerprint :: "32 word"
  files_hash :: "32 word"
  is_printing :: bool
  job_control :: "JobControl \<Rightarrow> bool"
  start_print :: "string \<Rightarrow> bool"
  set_ready :: "bool \<Rightarrow> bool"
  config :: "bool \<Rightarrow> Config \<times> bool"
  printer_info_fingerprint :: string
  FINGERPRINT_HDR_SIZE :: nat
  path_exists :: "string \<Rightarrow> bool"
  start_connect_download :: "Request \<Rightarrow> DownloadResult"
  monitor_id :: "TransferId option"
  monitor_outcome :: "TransferId \<Rightarrow> Outcome option"

text \<open>The calls a command handler makes on the printer, the file system and the download engine.\<close>

datatype Call =
  Call_job_control JobControl
  | Call_start_print string
  | Call_set_ready bool
  | Call_config bool
  | Call_printer_info
  | Call_path_exists string
  | Call_start_connect_download Request

subsection \<open>The Planner\<close>

record Planner =
  planned_event :: "Event option"
  last_telemetry :: "Timestamp option"
  last_success :: "Timestamp option"
  cooldown :: "Duration option"
  perform_cooldown :: bool
  failed_attempts :: "8 word"
  info_changes :: Tracked
  file_changes :: Tracked
  background_command :: "BackgroundCommand option"
  download :: "Download option"
  observed_transfer :: "TransferId option"
  transfer_start_cmd :: "CommandId option"

definition since :: "World \<Rightarrow> Timestamp option \<Rightarrow> Duration option" where
  "since w past_event =
     (case past_event of Some p \<Rightarrow> Some (now w - p) | None \<Rightarrow> None)"

definition reset :: "Planner \<Rightarrow> Planner" where
  "reset s =
     s\<lparr>info_changes := mark_dirty (info_changes s), last_telemetry := None,
       cooldown := None, perform_cooldown := False, failed_attempts := 0\<rparr>"

definition sleep :: "Duration \<Rightarrow> Planner \<Rightarrow> Sleep" where
  "sleep amount s =
     (let has_event = (planned_event s \<noteq> None);
          cmd = (if background_command s \<noteq> None \<and> \<not> has_event
                 then map_option bg_command (background_command s) else None);
          down = download s
      in Sleep amount cmd down)"

text \<open>Lines 154 to 162 of \<^verbatim>\<open>next_action\<close>: the probe of the two trackers, the second
  one only when the first reports no change, and the Info event planned on a change.\<close>

definition probe_changes :: "World \<Rightarrow> Planner \<Rightarrow> bool \<times> Planner" where
  "probe_changes w s =
     (let (info_changed, ic) = set_hash (info_fingerprint w) (info_changes s);
          s1 = s\<lparr>info_changes := ic\<rparr>
      in if info_changed then (True, s1)
         else (let (files_changed, fc) = set_hash (files_hash w) (file_changes s1)
               in (files_changed, s1\<lparr>file_changes := fc\<rparr>)))"

definition info_event :: "Planner \<Rightarrow> Event" where
  "info_event s =
     (if is_dirty (file_changes s) then (Event_of Info)\<lparr>info_rescan_files := True\<rparr>
      else Event_of Info)"

definition outcome_event_type :: "Outcome \<Rightarrow> EventType" where
  "outcome_event_type outcome =
     (case outcome of
        Outcome_Finished \<Rightarrow> TransferFinished
      | Outcome_Error \<Rightarrow> TransferAborted
      | Outcome_Stopped \<Rightarrow> TransferStopped)"

text \<open>Lines 164 to 199: the transfer the Planner watched is no longer the current one.
  The result is the event planned, if any, and the updated Planner.\<close>

definition observe_transfer :: "World \<Rightarrow> Planner \<Rightarrow> Event option \<times> Planner" where
  "observe_transfer w s =
     (let current_transfer = monitor_id w in
      if observed_transfer s \<noteq> current_transfer then
        (let terminated_transfer = observed_transfer s;
             outcome = (case terminated_transfer of
                          Some t \<Rightarrow> monitor_outcome w t
                        | None \<Rightarrow> None);
             s1 = s\<lparr>observed_transfer := current_transfer\<rparr>
         in case outcome of
              Some out \<Rightarrow>
                (let e = (Event_of (outcome_event_type out))
                           \<lparr>transfer_id := terminated_transfer,
                            start_cmd_id := transfer_start_cmd s1\<rparr>
                 in (Some e, s1\<lparr>planned_event := Some e, transfer_start_cmd := None\<rparr>))
            | None \<Rightarrow> (None, s1))
      else (None, s))"

text \<open>Lines 201 to 212: telemetry, or a sleep until it is due.\<close>

definition telemetry_action :: "World \<Rightarrow> Planner \<Rightarrow> Action" where
  "telemetry_action w s =
     (case since w (last_telemetry s) of
        Some since_telemetry \<Rightarrow>
          (let telemetry_interval =
                 (if is_printing w \<or> background_command s \<noteq> None
                  then TELEMETRY_INTERVAL_SHORT else TELEMETRY_INTERVAL_LONG)
           in if since_telemetry \<ge> telemetry_interval then SendTelemetry False
              else ActSleep (sleep (telemetry_interval - since_telemetry) s))
      | None \<Rightarrow> SendTelemetry False)"

definition next_action :: "World \<Rightarrow> Planner \<Rightarrow> Error + (Action \<times> Planner)" where
  "next_action w s =
     (if perform_cooldown s then
        (let s1 = s\<lparr>perform_cooldown := False\<rparr> in
         case cooldown s1 of
           None \<Rightarrow> Inl AssertionFailed
         | Some c \<Rightarrow> Inr (ActSleep (sleep c s1), s1))
      else case planned_event s of
        Some e \<Rightarrow> Inr (ActEvent e, s)
      | None \<Rightarrow>
        (let (changed, s1) = probe_changes w s in
         if changed then
           (let e = info_event s1 in Inr (ActEvent e, s1\<lparr>planned_event := Some e\<rparr>))
         else
           (case observe_transfer w s1 of
              (Some e, s2) \<Rightarrow> Inr (ActEvent e, s2)
            | (None, s2) \<Rightarrow> Inr (telemetry_action w s2, s2))))"

text \<open>Lines 241 to 252 of \<^verbatim>\<open>action_done\<close>, case Failed: count the attempt and give up
  the event after too many.\<close>

definition give_up :: "Planner \<Rightarrow> Planner" where
  "give_up s =
     (let s1 = s\<lparr>failed_attempts := failed_attempts s + 1\<rparr> in
      if failed_attempts s1 \<ge> GIVE_UP_AFTER_ATTEMPTS then
        (let s2 = (case planned_event s1 of
                     Some e \<Rightarrow> (if type e \<noteq> Info then s1\<lparr>planned_event := None\<rparr> else s1)
                   | None \<Rightarrow> s1)
         in s2\<lparr>failed_attempts := 0\<rparr>)
      else s1)"

text \<open>Lines 254 to 263: plan a new Info event after a long silence.\<close>

definition reconnect :: "World \<Rightarrow> Planner \<Rightarrow> Planner" where
  "reconnect w s =
     (let since_success = since w (last_success s) in
      if (case since_success of Some d \<Rightarrow> d | None \<Rightarrow> 0) \<ge> RECONNECT_AFTER
         \<and> planned_event s = None
      then s\<lparr>planned_event := Some (Event_of Info), last_success := None\<rparr>
      else s)"

text \<open>Lines 265 to 267: the back-off.\<close>

definition back_off :: "Planner \<Rightarrow> Planner" where
  "back_off s =
     s\<lparr>cooldown :=
         Some (min COOLDOWN_MAX
                 ((case cooldown s of Some c \<Rightarrow> c | None \<Rightarrow> COOLDOWN_BASE div 2) * 2)),
       perform_cooldown := True\<rparr>"

definition action_done :: "World \<Rightarrow> ActionResult \<Rightarrow> Planner \<Rightarrow> Planner" where
  "action_done w result s =
     (if result = Refused \<or> result = Ok then
        (let n = now w;
             s1 = s\<lparr>last_success := Some n, perform_cooldown := False, cooldown := None,
                    failed_attempts := 0\<rparr>
         in case planned_event s1 of
              Some e \<Rightarrow>
                (let s2 = (if type e = Info then
                             (let s3 = s1\<lparr>info_changes := mark_clean (info_changes s1)\<rparr>
                              in if info_rescan_files e
                                 then s3\<lparr>file_changes := mark_clean (file_changes s3)\<rparr>
                                 else s3)
                           else s1)
                 in s2\<lparr>planned_event := None, last_telemetry := None\<rparr>)
            | None \<Rightarrow> s1\<lparr>last_telemetry := Some n\<rparr>)
      else back_off (reconnect w (give_up s)))"

subsection \<open>Command reception\<close>

text \<open>
  One definition for each overload \<^verbatim>\<open>Planner::command(const Command &, const T &)\<close>,
  named after \<open>T\<close>. Each returns the calls it made on the collaborators and the updated
  Planner.
\<close>

definition command_UnknownCommand :: "Command \<Rightarrow> Planner \<Rightarrow> Error + (Call list \<times> Planner)" where
  "command_UnknownCommand c s =
     Inr ([], s\<lparr>planned_event := Some (Event_rejected (cmd_id c) ''Unknown command'')\<rparr>)"

definition command_BrokenCommand ::
  "Command \<Rightarrow> string \<Rightarrow> Planner \<Rightarrow> Error + (Call list \<times> Planner)" where
  "command_BrokenCommand c r s =
     Inr ([], s\<lparr>planned_event := Some (Event_rejected (cmd_id c) r)\<rparr>)"

definition command_GcodeTooLarge :: "Command \<Rightarrow> Planner \<Rightarrow> Error + (Call list \<times> Planner)" where
  "command_GcodeTooLarge c s =
     Inr ([], s\<lparr>planned_event := Some (Event_rejected (cmd_id c) ''GCode too large'')\<rparr>)"

definition command_ProcessingOtherCommand ::
  "Command \<Rightarrow> Planner \<Rightarrow> Error + (Call list \<times> Planner)" where
  "command_ProcessingOtherCommand c s =
     Inr ([], s\<lparr>planned_event :=
                   Some (Event_rejected (cmd_id c) ''Processing other command'')\<rparr>)"

definition command_Gcode ::
  "Command \<Rightarrow> string \<Rightarrow> nat \<Rightarrow> Planner \<Rightarrow> Error + (Call list \<times> Planner)" where
  "command_Gcode c g n s =
     Inr ([], s\<lparr>background_command :=
                   Some \<lparr>bg_id = cmd_id c,
                         bg_command = \<lparr>gcode = g, gcode_size = n, position = 0\<rparr>\<rparr>,
                 planned_event := Some (Event_id Accepted (cmd_id c))\<rparr>)"

text \<open>The macro \<^verbatim>\<open>JC(CMD, REASON)\<close>, instantiated for Pause, Resume and Stop.\<close>

definition command_JC ::
  "JobControl \<Rightarrow> string \<Rightarrow> World \<Rightarrow> Command \<Rightarrow> Planner \<Rightarrow> Error + (Call list \<times> Planner)" where
  "command_JC CMD REASON w c s =
     (if job_control w CMD
      then Inr ([Call_job_control CMD],
                s\<lparr>planned_event := Some (Event_id Finished (cmd_id c))\<rparr>)
      else Inr ([Call_job_control CMD],
                s\<lparr>planned_event := Some (Event_rejected (cmd_id c) REASON)\<rparr>))"

definition command_StartPrint ::
  "World \<Rightarrow> Command \<Rightarrow> string \<Rightarrow> Planner \<Rightarrow> Error + (Call list \<times> Planner)" where
  "command_StartPrint w c p s =
     (let (calls, reason) =
            (if \<not> path_allowed p then ([], Some ''Forbidden path'')
             else if \<not> path_exists w p then ([Call_path_exists p], Some ''File not found'')
             else if \<not> start_print w p
               then ([Call_path_exists p, Call_start_print p], Some ''Can't print now'')
             else ([Call_path_exists p, Call_start_print p], None))
      in case reason of
           None \<Rightarrow> Inr (calls, s\<lparr>planned_event := Some (Event_id Finished (cmd_id c))\<rparr>)
         | Some r \<Rightarrow> Inr (calls, s\<lparr>planned_event := Some (Event_rejected (cmd_id c) r)\<rparr>))"

definition command_SendInfo :: "Command \<Rightarrow> Planner \<Rightarrow> Error + (Call list \<times> Planner)" where
  "command_SendInfo c s = Inr ([], s\<lparr>planned_event := Some (Event_id Info (cmd_id c))\<rparr>)"

definition command_SendJobInfo ::
  "Command \<Rightarrow> 16 word \<Rightarrow> Planner \<Rightarrow> Error + (Call list \<times> Planner)" where
  "command_SendJobInfo c j s =
     Inr ([], s\<lparr>planned_event := Some ((Event_id JobInfo (cmd_id c))\<lparr>job_id := Some j\<rparr>)\<rparr>)"

definition command_SendFileInfo ::
  "Command \<Rightarrow> string \<Rightarrow> Planner \<Rightarrow> Error + (Call list \<times> Planner)" where
  "command_SendFileInfo c p s =
     (if path_allowed p
      then Inr ([], s\<lparr>planned_event := Some ((Event_id FileInfo (cmd_id c))\<lparr>path := Some p\<rparr>)\<rparr>)
      else Inr ([], s\<lparr>planned_event := Some (Event_rejected (cmd_id c) ''Forbidden path'')\<rparr>))"

definition command_SendTransferInfo :: "Command \<Rightarrow> Planner \<Rightarrow> Error + (Call list \<times> Planner)" where
  "command_SendTransferInfo c s =
     Inr ([], s\<lparr>planned_event :=
                   Some ((Event_id TransferInfo (cmd_id c))
                           \<lparr>start_cmd_id := transfer_start_cmd s\<rparr>)\<rparr>)"

definition command_SetPrinterReady ::
  "World \<Rightarrow> Command \<Rightarrow> Planner \<Rightarrow> Error + (Call list \<times> Planner)" where
  "command_SetPrinterReady w c s =
     (let result = (if set_ready w True then Finished else Rejected);
          r = (if result = Rejected then Some ''Can't set ready now'' else None)
      in Inr ([Call_set_ready True],
              s\<lparr>planned_event := Some ((Event_id result (cmd_id c))\<lparr>reason := r\<rparr>)\<rparr>))"

definition command_CancelPrinterReady ::
  "World \<Rightarrow> Command \<Rightarrow> Planner \<Rightarrow> Error + (Call list \<times> Planner)" where
  "command_CancelPrinterReady w c s =
     (let ok = set_ready w False in
      if \<not> ok then Inl AssertionFailed
      else Inr ([Call_set_ready False],
                s\<lparr>planned_event := Some (Event_id Finished (cmd_id c))\<rparr>))"

definition command_ProcessingThisCommand ::
  "Command \<Rightarrow> Planner \<Rightarrow> Error + (Call list \<times> Planner)" where
  "command_ProcessingThisCommand c s = Inl AssertionFailed"

text \<open>The path of the download's URL, as \<^verbatim>\<open>snprintf\<close> writes it, and the length of the
  buffer it is written to.\<close>

definition download_url_path :: "64 word \<Rightarrow> string \<Rightarrow> string" where
  "download_url_path team h = ''/p/teams/'' @ decimal (unat team) @ ''/files/'' @ h @ ''/raw''"

definition download_buffer_len :: "string \<Rightarrow> nat" where
  "download_buffer_len h =
     length ''/p/teams/'' + 21 + length ''/files/'' + length h + length ''/raw'' + 1"

definition command_StartConnectDownload ::
  "World \<Rightarrow> Command \<Rightarrow> string \<Rightarrow> 64 word \<Rightarrow> string \<Rightarrow> Planner
     \<Rightarrow> Error + (Call list \<times> Planner)" where
  "command_StartConnectDownload w c dest team h s =
     (let (cfg, config_changed) = config w False in
      if config_changed then
        Inr ([Call_config False],
             s\<lparr>planned_event := Some (Event_rejected (cmd_id c) ''Switching config'')\<rparr>)
      else if tls cfg then
        Inr ([Call_config False],
             s\<lparr>planned_event :=
                 Some (Event_rejected (cmd_id c) ''Encryption of downloads not supported'')\<rparr>)
      else
        (let url = download_url_path team h;
             written = length url
         in if \<not> written < download_buffer_len h then Inl AssertionFailed
            else
              (let req = \<lparr>req_host = host cfg, req_port = port cfg, req_url_path = url,
                          req_dest_path = dest, req_token = token cfg,
                          req_fingerprint = printer_info_fingerprint w,
                          req_fingerprint_size = FINGERPRINT_HDR_SIZE w\<rparr>;
                   calls = [Call_config False, Call_printer_info,
                            Call_start_connect_download req]
               in case start_connect_download w req of
                    Started d \<Rightarrow>
                      (if download s \<noteq> None then Inl AssertionFailed
                       else Inr (calls,
                                 s\<lparr>download := Some d,
                                   planned_event := Some (Event_id Finished (cmd_id c)),
                                   transfer_start_cmd := Some (cmd_id c)\<rparr>))
                  | NoTransferSlot \<Rightarrow>
                      Inr (calls,
                           s\<lparr>planned_event :=
                               Some (Event_rejected (cmd_id c) ''Another transfer in progress'')\<rparr>)
                  | AlreadyExists \<Rightarrow>
                      Inr (calls,
                           s\<lparr>planned_event :=
                               Some (Event_rejected (cmd_id c) ''File already exists'')\<rparr>)
                  | RefusedRequest \<Rightarrow>
                      Inr (calls,
                           s\<lparr>planned_event :=
                               Some (Event_rejected (cmd_id c) ''Failed to download'')\<rparr>)
                  | Storage msg \<Rightarrow>
                      Inr (calls,
                           s\<lparr>planned_event := Some (Event_rejected (cmd_id c) msg)\<rparr>))))"

text \<open>The visitor of \<^verbatim>\<open>Planner::command(Command)\<close>: the overload for the variant held.\<close>

definition command_visit ::
  "World \<Rightarrow> Command \<Rightarrow> Planner \<Rightarrow> Error + (Call list \<times> Planner)" where
  "command_visit w c s =
     (case command_data c of
        UnknownCommand \<Rightarrow> command_UnknownCommand c s
      | BrokenCommand r \<Rightarrow> command_BrokenCommand c r s
      | GcodeTooLarge \<Rightarrow> command_GcodeTooLarge c s
      | ProcessingOtherCommand \<Rightarrow> command_ProcessingOtherCommand c s
      | ProcessingThisCommand \<Rightarrow> command_ProcessingThisCommand c s
      | Gcode g n \<Rightarrow> command_Gcode c g n s
      | PausePrint \<Rightarrow> command_JC Pause ''No print to pause'' w c s
      | ResumePrint \<Rightarrow> command_JC Resume ''No paused print to resume'' w c s
      | StopPrint \<Rightarrow> command_JC Stop ''No print to stop'' w c s
      | StartPrint p \<Rightarrow> command_StartPrint w c p s
      | SendInfo \<Rightarrow> command_SendInfo c s
      | SendJobInfo j \<Rightarrow> command_SendJobInfo c j s
      | SendFileInfo p \<Rightarrow> command_SendFileInfo c p s
      | SendTransferInfo \<Rightarrow> command_SendTransferInfo c s
      | SetPrinterReady \<Rightarrow> command_SetPrinterReady w c s
      | CancelPrinterReady \<Rightarrow> command_CancelPrinterReady w c s
      | StartConnectDownload dest team h \<Rightarrow> command_StartConnectDownload w c dest team h s)"

definition command :: "World \<Rightarrow> Command \<Rightarrow> Planner \<Rightarrow> Error + (Call list \<times> Planner)" where
  "command w c s =
     (if planned_event s \<noteq> None then Inl AssertionFailed
      else if background_command s \<noteq> None then
        Inr ([], s\<lparr>planned_event :=
                      Some (Event_id (if command_data c = ProcessingThisCommand
                                      then Accepted else Rejected) (cmd_id c))\<rparr>)
      else command_visit w c s)"

definition background_command_id :: "Planner \<Rightarrow> CommandId option" where
  "background_command_id s =
     (case background_command s of Some b \<Rightarrow> Some (bg_id b) | None \<Rightarrow> None)"

definition background_done :: "BackgroundResult \<Rightarrow> Planner \<Rightarrow> Error + Planner" where
  "background_done result s =
     (if \<not> (result = Success \<or> result = Failure) then Inl AssertionFailed
      else if planned_event s \<noteq> None then Inl AssertionFailed
      else if background_command s = None then Inl AssertionFailed
      else Inr (s\<lparr>planned_event :=
                    Some ((Event_of (if result = Success then Finished else Failed))
                            \<lparr>command_id := background_command_id s\<rparr>),
                  background_command := None\<rparr>))"

definition download_done :: "World \<Rightarrow> Planner \<Rightarrow> Error + Planner" where
  "download_done w s =
     (if download s = None then Inl AssertionFailed
      else (let s1 = s\<lparr>observed_transfer := monitor_id w\<rparr> in
            if observed_transfer s1 = None then Inl AssertionFailed
            else Inr (s1\<lparr>download := None\<rparr>)))"

subsection \<open>The USB host power-cycle supervisor\<close>

text \<open>
  The namespace \<^verbatim>\<open>usbh_power_cycle\<close>. Each callback runs as one step. The restart timer
  is a one-shot timer: \<open>None\<close> while dormant, \<open>Some p\<close> while running with period \<open>p\<close>;
  changing the period starts it, and it is dormant again when its callback begins. The two
  functions that initialise the Marlin client keep a static flag each.
\<close>

datatype Phase = idle | power_off | power_on

datatype WarningType = USBFlashDiskError

datatype UsbCall =
  USBH_Stop | USBH_Start | marlin_client_init | marlin_client_print_resume
  | marlin_client_set_warning WarningType

record Usbh =
  phase :: Phase
  printing_paused :: bool
  restart_timer :: "nat option"
  msc_active_client_initializated :: bool
  callback_client_initializated :: bool

text \<open>The supervisor after \<^verbatim>\<open>init()\<close>: the globals at their initialisers, the timer
  created and not started.\<close>

definition init :: Usbh where
  "init =
     \<lparr>phase = idle, printing_paused = False, restart_timer = None,
      msc_active_client_initializated = False, callback_client_initializated = False\<rparr>"

definition io_error :: "Usbh \<Rightarrow> UsbCall list \<times> Usbh" where
  "io_error u = (if phase u = idle then ([], u\<lparr>restart_timer := Some 10\<rparr>) else ([], u))"

definition port_disabled :: "Usbh \<Rightarrow> UsbCall list \<times> Usbh" where
  "port_disabled u = (if phase u = idle then ([], u\<lparr>restart_timer := Some 10\<rparr>) else ([], u))"

definition media_state_error :: "Usbh \<Rightarrow> UsbCall list \<times> Usbh" where
  "media_state_error u = ([], u\<lparr>printing_paused := True\<rparr>)"

definition msc_active :: "Usbh \<Rightarrow> UsbCall list \<times> Usbh" where
  "msc_active u =
     (if phase u = power_on \<and> printing_paused u then
        (let u1 = u\<lparr>printing_paused := False, restart_timer := None, phase := idle\<rparr> in
         if \<not> msc_active_client_initializated u1
         then ([marlin_client_init, marlin_client_print_resume],
               u1\<lparr>msc_active_client_initializated := True\<rparr>)
         else ([marlin_client_print_resume], u1))
      else ([], u))"

definition restart_timer_callback :: "Usbh \<Rightarrow> UsbCall list \<times> Usbh" where
  "restart_timer_callback u =
     (case phase u of
        idle \<Rightarrow> ([USBH_Stop], u\<lparr>phase := power_off, restart_timer := Some 150\<rparr>)
      | power_off \<Rightarrow> ([USBH_Start], u\<lparr>phase := power_on, restart_timer := Some 5000\<rparr>)
      | power_on \<Rightarrow>
          (let u1 = u\<lparr>phase := idle\<rparr> in
           if printing_paused u1 then
             (if \<not> callback_client_initializated u1
              then ([marlin_client_init, marlin_client_set_warning USBFlashDiskError],
                    u1\<lparr>callback_client_initializated := True\<rparr>)
              else ([marlin_client_set_warning USBFlashDiskError], u1))
           else ([], u1)))"

text \<open>What can happen to the supervisor: one of its four entry points is called, or the
  restart timer, if it is running, expires and the timer service runs the callback.\<close>

datatype UsbEvent = IoError | PortDisabled | MediaStateError | MscActive | TimerExpired

definition usb_step :: "UsbEvent \<Rightarrow> Usbh \<Rightarrow> UsbCall list \<times> Usbh" where
  "usb_step ev u =
     (case ev of
        IoError \<Rightarrow> io_error u
      | PortDisabled \<Rightarrow> port_disabled u
      | MediaStateError \<Rightarrow> media_state_error u
      | MscActive \<Rightarrow> msc_active u
      | TimerExpired \<Rightarrow>
          (case restart_timer u of
             None \<Rightarrow> ([], u)
           | Some p \<Rightarrow> restart_timer_callback (u\<lparr>restart_timer := None\<rparr>)))"

fun usb_run :: "UsbEvent list \<Rightarrow> Usbh \<Rightarrow> Usbh" where
  "usb_run [] u = u"
| "usb_run (ev # evs) u = usb_run evs (snd (usb_step ev u))"

subsection \<open>Runs and example states\<close>

text \<open>Consecutive calls of \<^verbatim>\<open>action_done(ActionResult::Failed)\<close>, one for each element
  of the list, which gives what the collaborators answer during that call.\<close>

fun consecutive_failed :: "World list \<Rightarrow> Planner \<Rightarrow> Planner" where
  "consecutive_failed [] s = s"
| "consecutive_failed (w # ws) s = consecutive_failed ws (action_done w Failed_result s)"

text \<open>
  A run of the Planner: its entry points called one after the other, each with what the
  collaborators answer during the call. \<open>planned_in_run\<close> lists the events the calls
  plan, in order: after each call, the pending event if the call changed it. A failed
  assertion ends the run. \<open>monitor_never t\<close> holds of a run in which the transfer
  monitor never reports \<open>t\<close> as the current transfer.
\<close>

datatype Step =
  Step_next_action World
  | Step_action_done World ActionResult
  | Step_command World Command
  | Step_background_done BackgroundResult
  | Step_download_done World

definition newly_planned :: "Planner \<Rightarrow> Planner \<Rightarrow> Event list" where
  "newly_planned s s' =
     (case planned_event s' of
        Some e \<Rightarrow> if planned_event s = Some e then [] else [e]
      | None \<Rightarrow> [])"

fun planned_in_run :: "Step list \<Rightarrow> Planner \<Rightarrow> Event list" where
  "planned_in_run [] s = []"
| "planned_in_run (Step_next_action w # steps) s =
     (case next_action w s of
        Inl err \<Rightarrow> []
      | Inr (a, s') \<Rightarrow> newly_planned s s' @ planned_in_run steps s')"
| "planned_in_run (Step_action_done w r # steps) s =
     (let s' = action_done w r s in newly_planned s s' @ planned_in_run steps s')"
| "planned_in_run (Step_command w c # steps) s =
     (case command w c s of
        Inl err \<Rightarrow> []
      | Inr (calls, s') \<Rightarrow> newly_planned s s' @ planned_in_run steps s')"
| "planned_in_run (Step_background_done r # steps) s =
     (case background_done r s of
        Inl err \<Rightarrow> []
      | Inr s' \<Rightarrow> newly_planned s s' @ planned_in_run steps s')"
| "planned_in_run (Step_download_done w # steps) s =
     (case download_done w s of
        Inl err \<Rightarrow> []
      | Inr s' \<Rightarrow> newly_planned s s' @ planned_in_run steps s')"

fun monitor_never :: "TransferId \<Rightarrow> Step list \<Rightarrow> bool" where
  "monitor_never t [] = True"
| "monitor_never t (Step_next_action w # steps) =
     (monitor_id w \<noteq> Some t \<and> monitor_never t steps)"
| "monitor_never t (Step_download_done w # steps) =
     (monitor_id w \<noteq> Some t \<and> monitor_never t steps)"
| "monitor_never t (_ # steps) = monitor_never t steps"

definition unwatched :: "TransferId \<Rightarrow> Planner \<Rightarrow> Planner \<Rightarrow> bool" where
  "unwatched t s s' \<longleftrightarrow>
     observed_transfer s' \<noteq> Some t \<and> (\<forall>e \<in> set (newly_planned s s'). transfer_id e \<noteq> Some t)"

text \<open>A Planner with nothing pending and clean trackers, and collaborators that report
  nothing new, a plain-text configuration and no transfer.\<close>

definition quiet_planner :: Planner where
  "quiet_planner =
     \<lparr>planned_event = None, last_telemetry = None, last_success = None, cooldown = None,
      perform_cooldown = False, failed_attempts = 0,
      info_changes = \<lparr>hash = 0, dirty = False\<rparr>, file_changes = \<lparr>hash = 0, dirty = False\<rparr>,
      background_command = None, download = None, observed_transfer = None,
      transfer_start_cmd = None\<rparr>"

definition quiet_world :: World where
  "quiet_world =
     \<lparr>now = 0, info_fingerprint = 0, files_hash = 0, is_printing = False,
      job_control = (\<lambda>_. False), start_print = (\<lambda>_. False), set_ready = (\<lambda>_. True),
      config = (\<lambda>_. (\<lparr>host = ''connect.example'', port = 80, token = ''token'', tls = False\<rparr>,
                       False)),
      printer_info_fingerprint = ''fingerprint'', FINGERPRINT_HDR_SIZE = 16,
      path_exists = (\<lambda>_. False), start_connect_download = (\<lambda>_. RefusedRequest),
      monitor_id = None, monitor_outcome = (\<lambda>_. None)\<rparr>"

text \<open>Scenario 4 of the spec: a FileInfo event waits to be sent. Next to it, a pending
  Info event; a G-code command running in the background with no event pending; and the
  Planner after four failed actions and the end of that command, its Finished event
  waiting to be sent.\<close>

definition file_info_pending :: Planner where
  "file_info_pending =
     quiet_planner\<lparr>planned_event := Some ((Event_id FileInfo 42)\<lparr>path := Some ''/usb/x.gco''\<rparr>)\<rparr>"

definition info_pending :: Planner where
  "info_pending = quiet_planner\<lparr>planned_event := Some (Event_of Info)\<rparr>"

definition gcode_running :: Planner where
  "gcode_running =
     quiet_planner
       \<lparr>background_command :=
          Some \<lparr>bg_id = 7, bg_command = \<lparr>gcode = ''G1 X10'', gcode_size = 6, position = 0\<rparr>\<rparr>\<rparr>"

definition finished_pending :: Planner where
  "finished_pending =
     quiet_planner
       \<lparr>planned_event := Some ((Event_of Finished)\<lparr>command_id := Some 7\<rparr>),
        cooldown := Some 800, perform_cooldown := True, failed_attempts := 4\<rparr>"

text \<open>Scenario 2 of the spec: the Accepted event of a G-code command waits to be sent.
  Scenario 6: transfer 3, started by command 9, is over and the monitor knows it finished.\<close>

definition accepted_pending :: Planner where
  "accepted_pending =
     quiet_planner
       \<lparr>planned_event := Some (Event_id Accepted 7),
        background_command :=
          Some \<lparr>bg_id = 7, bg_command = \<lparr>gcode = ''G1 X10'', gcode_size = 6, position = 0\<rparr>\<rparr>\<rparr>"

definition transfer_ended :: Planner where
  "transfer_ended = quiet_planner\<lparr>observed_transfer := Some 3, transfer_start_cmd := Some 9\<rparr>"

definition transfer_ended_world :: World where
  "transfer_ended_world =
     quiet_world\<lparr>monitor_outcome := (\<lambda>t. if t = 3 then Some Outcome_Finished else None)\<rparr>"

text \<open>Scenario 6 of the spec: the download engine accepts the download.\<close>

definition download_world :: World where
  "download_world = quiet_world\<lparr>start_connect_download := (\<lambda>_. Started (Download 1))\<rparr>"

text \<open>The restart timer's period in each phase of the supervisor, and a supervisor that
  waits for the drive to come back while the print is paused.\<close>

definition usb_inv :: "Usbh \<Rightarrow> bool" where
  "usb_inv u =
     (case phase u of
        idle \<Rightarrow> restart_timer u = None \<or> restart_timer u = Some 10
      | power_off \<Rightarrow> restart_timer u = Some 150
      | power_on \<Rightarrow> restart_timer u = Some 5000)"

definition waiting_for_drive :: Usbh where
  "waiting_for_drive =
     \<lparr>phase = power_on, printing_paused = True, restart_timer = Some 5000,
      msc_active_client_initializated = False, callback_client_initializated = False\<rparr>"

section \<open>Properties\<close>

subsection \<open>Path validation\<close>

lemma strncmp_zero_iff: "strncmp a b n = 0 \<longleftrightarrow> take n a = take n b"
  by (induction a b n rule: strncmp.induct) auto

lemma strcmp_zero_iff: "strcmp a b = 0 \<longleftrightarrow> a = b"
  by (induction a b rule: strcmp.induct) auto

lemma take_length_eq_prefix: "take (length n) h = n \<longleftrightarrow> prefix n h"
  by (metis append_eq_conv_conj prefix_def)

lemma strstr_found_iff: "strstr h n \<noteq> None \<longleftrightarrow> sublist n h"
proof (induction h)
  case Nil
  show ?case by simp
next
  case (Cons x xs)
  have "strncmp (x # xs) n (length n) = 0 \<longleftrightarrow> prefix n (x # xs)"
    by (simp only: strncmp_zero_iff take_all order_refl take_length_eq_prefix)
  with Cons show ?case
    by (auto simp: sublist_Cons_right)
qed

lemma path_allowed_char:
  "path_allowed p \<longleftrightarrow>
     (p = ''/usb'' \<or> (\<exists>r. p = ''/usb/'' @ r)) \<and> \<not> (\<exists>a b. p = a @ ''/../'' @ b)"
proof -
  have "strncmp p ''/usb/'' (length ''/usb/'') = 0 \<longleftrightarrow> prefix ''/usb/'' p"
    by (simp only: strncmp_zero_iff take_all order_refl take_length_eq_prefix)
  then have "path_allowed p \<longleftrightarrow> (prefix ''/usb/'' p \<or> p = ''/usb'') \<and> \<not> sublist ''/../'' p"
    unfolding path_allowed_def Let_def strcmp_zero_iff strstr_found_iff by simp
  then show ?thesis
    unfolding prefix_def sublist_def by blast
qed

text \<open>
  C7. A path is allowed exactly when it is \<^verbatim>\<open>/usb\<close> or starts with \<^verbatim>\<open>/usb/\<close>, and
  does not contain \<^verbatim>\<open>/../\<close>. In particular \<^verbatim>\<open>/usb\<close> and \<^verbatim>\<open>/usb/foo.gco\<close> are
  allowed, \<^verbatim>\<open>/usb/../etc\<close> and \<^verbatim>\<open>/home/x\<close> are not.
\<close>

theorem path_allowed_iff:
  "(\<forall>p. path_allowed p \<longleftrightarrow>
         (p = ''/usb'' \<or> (\<exists>r. p = ''/usb/'' @ r)) \<and> \<not> (\<exists>a b. p = a @ ''/../'' @ b))
   \<and> path_allowed ''/usb'' \<and> path_allowed ''/usb/foo.gco''
   \<and> \<not> path_allowed ''/usb/../etc'' \<and> \<not> path_allowed ''/home/x''"
proof -
  have "path_allowed ''/usb''" by (simp add: path_allowed_def)
  moreover have "path_allowed ''/usb/foo.gco''" by (simp add: path_allowed_def)
  moreover have "\<not> path_allowed ''/usb/../etc''" by (simp add: path_allowed_def)
  moreover have "\<not> path_allowed ''/home/x''" by (simp add: path_allowed_def)
  ultimately show ?thesis using path_allowed_char by blast
qed

subsection \<open>Failed actions: give-up, reconnect and back-off\<close>

lemma action_done_Failed: "action_done w Failed_result s = back_off (reconnect w (give_up s))"
  by (simp add: action_done_def)

lemma back_off_fields:
  "planned_event (back_off s) = planned_event s"
  "last_success (back_off s) = last_success s"
  "failed_attempts (back_off s) = failed_attempts s"
  "perform_cooldown (back_off s)"
  by (simp_all add: back_off_def)

lemma reconnect_pending:
  "planned_event s \<noteq> None \<Longrightarrow> reconnect w s = s"
  by (auto simp: reconnect_def)

lemma reconnect_failed_attempts: "failed_attempts (reconnect w s) = failed_attempts s"
  by (simp add: reconnect_def Let_def)

lemma give_up_last_success: "last_success (give_up s) = last_success s"
  by (simp add: give_up_def Let_def split: option.splits)

lemma give_up_count:
  "unat (failed_attempts s) < 4 \<Longrightarrow>
     give_up s = s\<lparr>failed_attempts := failed_attempts s + 1\<rparr>"
  by (simp add: give_up_def Let_def GIVE_UP_AFTER_ATTEMPTS_def word_le_nat_alt unat_word_ariths)

lemma give_up_fifth:
  "failed_attempts s = 4 \<Longrightarrow>
     give_up s = s\<lparr>failed_attempts := 0,
                   planned_event := (case planned_event s of
                        Some e \<Rightarrow> if type e \<noteq> Info then None else Some e | None \<Rightarrow> None)\<rparr>"
  by (simp add: give_up_def Let_def GIVE_UP_AFTER_ATTEMPTS_def split: option.splits)

lemma fail_step_count:
  assumes "planned_event s = Some e" and "unat (failed_attempts s) < 4"
  shows "planned_event (action_done w Failed_result s) = Some e
       \<and> failed_attempts (action_done w Failed_result s) = failed_attempts s + 1"
proof -
  have g: "give_up s = s\<lparr>failed_attempts := failed_attempts s + 1\<rparr>"
    using assms(2) by (rule give_up_count)
  have "reconnect w (give_up s) = give_up s"
    by (rule reconnect_pending) (simp add: g assms(1))
  then show ?thesis
    by (simp add: action_done_Failed back_off_fields g assms(1))
qed

lemma fail_step_fifth:
  assumes "planned_event s = Some e" and "failed_attempts s = 4"
  shows "failed_attempts (action_done w Failed_result s) = 0"
    and "type e = Info \<Longrightarrow> planned_event (action_done w Failed_result s) = Some e"
    and "type e \<noteq> Info \<Longrightarrow> planned_event (action_done w Failed_result s) \<noteq> Some e"
proof -
  show "failed_attempts (action_done w Failed_result s) = 0"
    by (simp add: action_done_Failed back_off_fields reconnect_failed_attempts
        give_up_fifth [OF assms(2)])
  show "planned_event (action_done w Failed_result s) = Some e" if "type e = Info"
    using that assms(1)
    by (simp add: action_done_Failed back_off_fields give_up_fifth [OF assms(2)] reconnect_pending)
  show "planned_event (action_done w Failed_result s) \<noteq> Some e" if "type e \<noteq> Info"
    using that assms(1)
    by (auto simp: action_done_Failed back_off_fields give_up_fifth [OF assms(2)] reconnect_def
        Event_of_def)
qed

lemma fail_step_fifth_dropped:
  assumes "planned_event s = Some e" and "failed_attempts s = 4" and "type e \<noteq> Info"
  shows "planned_event (action_done w Failed_result s) = None
       \<or> planned_event (action_done w Failed_result s) = Some (Event_of Info)"
  using assms(1,3)
  by (auto simp: action_done_Failed back_off_fields give_up_fifth [OF assms(2)] reconnect_def)

lemma four_failed:
  assumes "planned_event s = Some e" and "failed_attempts s = 0"
  shows "planned_event (consecutive_failed [w1, w2, w3, w4] s) = Some e
       \<and> failed_attempts (consecutive_failed [w1, w2, w3, w4] s) = 4"
proof -
  let ?s1 = "action_done w1 Failed_result s"
  let ?s2 = "action_done w2 Failed_result ?s1"
  let ?s3 = "action_done w3 Failed_result ?s2"
  let ?s4 = "action_done w4 Failed_result ?s3"
  have 1: "planned_event ?s1 = Some e \<and> failed_attempts ?s1 = 1"
    using fail_step_count [of s e w1] assms by simp
  have 2: "planned_event ?s2 = Some e \<and> failed_attempts ?s2 = 2"
    using fail_step_count [of ?s1 e w2] 1 by simp
  have 3: "planned_event ?s3 = Some e \<and> failed_attempts ?s3 = 3"
    using fail_step_count [of ?s2 e w3] 2 by simp
  have 4: "planned_event ?s4 = Some e \<and> failed_attempts ?s4 = 4"
    using fail_step_count [of ?s3 e w4] 3 by simp
  then show ?thesis by simp
qed

lemma consecutive_failed_snoc:
  "consecutive_failed (ws @ [w]) s = action_done w Failed_result (consecutive_failed ws s)"
  by (induction ws arbitrary: s) simp_all

lemma action_done_Failed_observed:
  "observed_transfer (action_done w Failed_result s) = observed_transfer s"
  by (simp add: action_done_Failed back_off_def reconnect_def give_up_def Let_def
      split: option.splits)

lemma consecutive_failed_observed:
  "observed_transfer (consecutive_failed ws s) = observed_transfer s"
  by (induction ws arbitrary: s) (simp_all add: action_done_Failed_observed)

lemma back_off_cooldown:
  "cooldown (back_off s) =
     Some (min 60000 (2 * (case cooldown s of None \<Rightarrow> 50 | Some c \<Rightarrow> c)))"
  by (simp add: back_off_def COOLDOWN_MAX_def COOLDOWN_BASE_def mult.commute split: option.splits)

lemma give_up_cooldown: "cooldown (give_up s) = cooldown s"
  by (simp add: give_up_def Let_def split: option.splits)

lemma reconnect_cooldown: "cooldown (reconnect w s) = cooldown s"
  by (simp add: reconnect_def Let_def)

lemma action_done_Failed_cooldown:
  "cooldown (action_done w Failed_result s) =
     Some (min 60000 (2 * (case cooldown s of None \<Rightarrow> 50 | Some c \<Rightarrow> c)))"
  by (simp add: action_done_Failed back_off_cooldown give_up_cooldown reconnect_cooldown)

lemma action_done_Failed_perform: "perform_cooldown (action_done w Failed_result s)"
  by (simp add: action_done_Failed back_off_fields)

lemma consecutive_failed_perform:
  "ws \<noteq> [] \<Longrightarrow> perform_cooldown (consecutive_failed ws s)"
  by (induction ws rule: rev_nonempty_induct)
    (simp_all add: action_done_Failed_perform consecutive_failed_snoc)

subsection \<open>The next action\<close>

lemma sleep_eq:
  "sleep amount s =
     Sleep amount
       (if planned_event s = None then map_option bg_command (background_command s) else None)
       (download s)"
  by (cases "background_command s") (simp_all add: sleep_def)

lemma next_action_cooldown:
  "perform_cooldown s \<Longrightarrow> cooldown s = Some c \<Longrightarrow>
     next_action w s =
       Inr (ActSleep (Sleep c
              (if planned_event s = None then map_option bg_command (background_command s)
               else None)
              (download s)),
            s\<lparr>perform_cooldown := False\<rparr>)"
  by (simp add: next_action_def Let_def sleep_eq)

lemma next_action_pending:
  "\<not> perform_cooldown s \<Longrightarrow> planned_event s = Some e \<Longrightarrow>
     next_action w s = Inr (ActEvent e, s)"
  by (simp add: next_action_def)

lemma probe_changes_fields:
  "planned_event (snd (probe_changes w s)) = planned_event s"
  "observed_transfer (snd (probe_changes w s)) = observed_transfer s"
  by (simp_all add: probe_changes_def Let_def split: prod.splits)

lemma observe_transfer_event:
  "fst (observe_transfer w s) = Some e' \<Longrightarrow>
     observed_transfer s \<noteq> None \<and> transfer_id e' = observed_transfer s"
  by (auto simp: observe_transfer_def Let_def split: if_splits option.splits)

lemma type_info_event: "type (info_event s) = Info"
  by (simp add: info_event_def Event_of_def)

lemma telemetry_action_not_event: "telemetry_action w s \<noteq> ActEvent e"
  by (simp add: telemetry_action_def Let_def split: option.splits)

lemma next_action_not_event:
  assumes "\<not> perform_cooldown s"
    and "planned_event s = None \<or> planned_event s = Some (Event_of Info)"
    and "type e \<noteq> Info"
    and "observed_transfer s = None \<or> transfer_id e \<noteq> observed_transfer s"
  shows "\<exists>a s'. next_action w s = Inr (a, s') \<and> a \<noteq> ActEvent e"
proof (cases "planned_event s")
  case (Some e0)
  with assms(2) have "e0 = Event_of Info" by simp
  then have "e0 \<noteq> e" using assms(3) by (auto simp: Event_of_def)
  then show ?thesis using Some assms(1) by (simp add: next_action_def)
next
  case None
  obtain changed s1 where p: "probe_changes w s = (changed, s1)" by (cases "probe_changes w s")
  have o1: "observed_transfer s1 = observed_transfer s"
    using probe_changes_fields(2) [of w s] p by simp
  show ?thesis
  proof (cases changed)
    case True
    have "info_event s1 \<noteq> e" using assms(3) type_info_event [of s1] by auto
    then show ?thesis using None assms(1) p True by (simp add: next_action_def Let_def)
  next
    case False
    obtain oe s2 where o: "observe_transfer w s1 = (oe, s2)" by (cases "observe_transfer w s1")
    show ?thesis
    proof (cases oe)
      case None2: None
      then show ?thesis using None assms(1) p False o
        by (simp add: next_action_def telemetry_action_not_event)
    next
      case (Some e')
      have "observed_transfer s1 \<noteq> None \<and> transfer_id e' = observed_transfer s1"
        using observe_transfer_event [of w s1 e'] o Some by simp
      then have "e' \<noteq> e" using assms(4) o1 by auto
      then show ?thesis using None assms(1) p False o Some
        by (simp add: next_action_def)
    qed
  qed
qed

subsection \<open>Reconnecting after a long silence\<close>

text \<open>
  C1, as amended. For every call of \<^verbatim>\<open>action_done(Failed)\<close> in which no event is pending
  after the give-up step: if \<open>last_success\<close> is set and the time since it (the wrapping
  difference \<open>now - last_success\<close>) is at least 10 000 ms, the Planner plans an Info event
  and clears \<open>last_success\<close>; if \<open>last_success\<close> is \<open>None\<close>, no event is planned and
  \<open>last_success\<close> stays \<open>None\<close>.
\<close>

theorem action_done_Failed_reconnect:
  "planned_event (give_up s) = None \<Longrightarrow>
     (\<forall>t. last_success s = Some t \<and> now w - t \<ge> 10000 \<longrightarrow>
        planned_event (action_done w Failed_result s) = Some (Event_of Info)
        \<and> last_success (action_done w Failed_result s) = None)
     \<and> (last_success s = None \<longrightarrow>
        planned_event (action_done w Failed_result s) = None
        \<and> last_success (action_done w Failed_result s) = None)"
  by (simp add: action_done_Failed back_off_fields reconnect_def since_def
      give_up_last_success RECONNECT_AFTER_def)

text \<open>An outage of 10 100 ms: the last success was at time 0, the failure is at 10 100.\<close>

theorem action_done_Failed_reconnect_witness:
  "planned_event (give_up (quiet_planner\<lparr>last_success := Some 0\<rparr>)) = None
   \<and> last_success (quiet_planner\<lparr>last_success := Some 0\<rparr>) = Some 0
   \<and> now (quiet_world\<lparr>now := 10100\<rparr>) - 0 \<ge> 10000
   \<and> planned_event (action_done (quiet_world\<lparr>now := 10100\<rparr>) Failed_result
        (quiet_planner\<lparr>last_success := Some 0\<rparr>)) = Some (Event_of Info)
   \<and> last_success (action_done (quiet_world\<lparr>now := 10100\<rparr>) Failed_result
        (quiet_planner\<lparr>last_success := Some 0\<rparr>)) = None"
proof -
  have g: "planned_event (give_up (quiet_planner\<lparr>last_success := Some 0\<rparr>)) = None"
    by (simp add: give_up_def quiet_planner_def GIVE_UP_AFTER_ATTEMPTS_def Let_def)
  have l: "last_success (quiet_planner\<lparr>last_success := Some 0\<rparr>) = Some 0
      \<and> now (quiet_world\<lparr>now := 10100\<rparr>) - 0 \<ge> 10000"
    by (simp add: quiet_world_def)
  show ?thesis
    using g l action_done_Failed_reconnect [OF g, of "quiet_world\<lparr>now := 10100\<rparr>"]
    by blast
qed

text \<open>The claim as stated fails where \<open>last_success\<close> is \<open>None\<close>: the absent interval
  counts as 0 ms, and nothing is planned.\<close>

theorem action_done_Failed_never_succeeded_counterexample:
  "planned_event (give_up quiet_planner) = None
   \<and> last_success quiet_planner = None
   \<and> planned_event (action_done quiet_world Failed_result quiet_planner) = None"
  by (simp add: action_done_def give_up_def reconnect_def back_off_def since_def
      quiet_planner_def GIVE_UP_AFTER_ATTEMPTS_def RECONNECT_AFTER_def Let_def)

subsection \<open>Giving up an event\<close>

text \<open>
  What the code does when the five failures start with \<open>failed_attempts = 0\<close>, as it
  is after any success: \<open>failed_attempts\<close> is 0 again and the next action is the
  cooldown sleep; an Info event is still pending, and the action after the sleep returns
  it; any other event is no longer pending, and the action after the sleep does not
  return it unless the Planner still watches the transfer the event is about.
\<close>

lemma give_up_after_five_failed:
  assumes "planned_event s = Some e" and "failed_attempts s = 0"
  shows "let s5 = consecutive_failed [w1, w2, w3, w4, w5] s;
             s5' = s5\<lparr>perform_cooldown := False\<rparr> in
           failed_attempts s5 = 0
         \<and> (\<exists>c. cooldown s5 = Some c
                \<and> (\<forall>w. next_action w s5 =
                       Inr (ActSleep (Sleep c
                              (if planned_event s5 = None
                               then map_option bg_command (background_command s5) else None)
                              (download s5)),
                            s5')))
         \<and> (type e = Info \<longrightarrow>
               planned_event s5 = Some e \<and> (\<forall>w. next_action w s5' = Inr (ActEvent e, s5')))
         \<and> (type e \<noteq> Info \<longrightarrow>
               planned_event s5 \<noteq> Some e
             \<and> (observed_transfer s = None \<or> transfer_id e \<noteq> observed_transfer s \<longrightarrow>
                  (\<forall>w. \<exists>a s'. next_action w s5' = Inr (a, s') \<and> a \<noteq> ActEvent e)))"
proof -
  define s4 where "s4 = consecutive_failed [w1, w2, w3, w4] s"
  define s5 where "s5 = action_done w5 Failed_result s4"
  define s5' where "s5' = s5\<lparr>perform_cooldown := False\<rparr>"
  have s5: "consecutive_failed [w1, w2, w3, w4, w5] s = s5"
    by (simp add: s5_def s4_def)
  have 4: "planned_event s4 = Some e" "failed_attempts s4 = 4"
    using four_failed [OF assms, of w1 w2 w3 w4] by (simp_all add: s4_def)
  have fa: "failed_attempts s5 = 0"
    unfolding s5_def using 4 by (rule fail_step_fifth(1))
  obtain c where c: "cooldown s5 = Some c"
    by (simp add: s5_def action_done_Failed_cooldown)
  have pc: "perform_cooldown s5"
    by (simp add: s5_def action_done_Failed_perform)
  have sl: "next_action w s5 =
              Inr (ActSleep (Sleep c
                     (if planned_event s5 = None
                      then map_option bg_command (background_command s5) else None)
                     (download s5)),
                   s5')" for w
    unfolding s5'_def using pc c by (rule next_action_cooldown)
  have info: "planned_event s5 = Some e \<and> (\<forall>w. next_action w s5' = Inr (ActEvent e, s5'))"
    if "type e = Info"
  proof -
    have "planned_event s5 = Some e"
      unfolding s5_def using 4 that by (rule fail_step_fifth(2))
    moreover from this have "next_action w s5' = Inr (ActEvent e, s5')" for w
      by (intro next_action_pending) (simp_all add: s5'_def)
    ultimately show ?thesis by simp
  qed
  have other: "planned_event s5 \<noteq> Some e
      \<and> (observed_transfer s = None \<or> transfer_id e \<noteq> observed_transfer s \<longrightarrow>
           (\<forall>w. \<exists>a s'. next_action w s5' = Inr (a, s') \<and> a \<noteq> ActEvent e))"
    if t: "type e \<noteq> Info"
  proof -
    have d: "planned_event s5 \<noteq> Some e"
      unfolding s5_def using 4 t by (rule fail_step_fifth(3))
    have p: "planned_event s5' = None \<or> planned_event s5' = Some (Event_of Info)"
      using fail_step_fifth_dropped [OF 4 t, of w5] by (simp add: s5'_def s5_def)
    have "observed_transfer (consecutive_failed [w1, w2, w3, w4, w5] s) = observed_transfer s"
      by (rule consecutive_failed_observed)
    then have o: "observed_transfer s5' = observed_transfer s"
      unfolding s5 by (simp add: s5'_def)
    have "\<exists>a s'. next_action w s5' = Inr (a, s') \<and> a \<noteq> ActEvent e"
      if "observed_transfer s = None \<or> transfer_id e \<noteq> observed_transfer s" for w
      by (rule next_action_not_event) (use p t o that in \<open>simp_all add: s5'_def\<close>)
    with d show ?thesis by blast
  qed
  show ?thesis
    unfolding Let_def s5 s5'_def [symmetric]
    using fa c sl info other by blast
qed

text \<open>Five failures on the FileInfo event of scenario 4, and on an Info event.\<close>

lemma give_up_after_five_failed_example:
  "planned_event file_info_pending = Some ((Event_id FileInfo 42)\<lparr>path := Some ''/usb/x.gco''\<rparr>)
   \<and> failed_attempts file_info_pending = 0
   \<and> type ((Event_id FileInfo 42)\<lparr>path := Some ''/usb/x.gco''\<rparr>) \<noteq> Info
   \<and> observed_transfer file_info_pending = None
   \<and> failed_attempts (consecutive_failed
        [quiet_world, quiet_world, quiet_world, quiet_world, quiet_world] file_info_pending) = 0
   \<and> planned_event (consecutive_failed
        [quiet_world, quiet_world, quiet_world, quiet_world, quiet_world] file_info_pending)
       \<noteq> Some ((Event_id FileInfo 42)\<lparr>path := Some ''/usb/x.gco''\<rparr>)
   \<and> (\<exists>a s'. next_action quiet_world
          ((consecutive_failed
              [quiet_world, quiet_world, quiet_world, quiet_world, quiet_world] file_info_pending)
             \<lparr>perform_cooldown := False\<rparr>) = Inr (a, s')
        \<and> a \<noteq> ActEvent ((Event_id FileInfo 42)\<lparr>path := Some ''/usb/x.gco''\<rparr>))
   \<and> planned_event info_pending = Some (Event_of Info)
   \<and> failed_attempts info_pending = 0
   \<and> type (Event_of Info) = Info
   \<and> failed_attempts (consecutive_failed
        [quiet_world, quiet_world, quiet_world, quiet_world, quiet_world] info_pending) = 0
   \<and> planned_event (consecutive_failed
        [quiet_world, quiet_world, quiet_world, quiet_world, quiet_world] info_pending)
       = Some (Event_of Info)
   \<and> next_action quiet_world
        ((consecutive_failed
            [quiet_world, quiet_world, quiet_world, quiet_world, quiet_world] info_pending)
           \<lparr>perform_cooldown := False\<rparr>)
       = Inr (ActEvent (Event_of Info),
              (consecutive_failed
                 [quiet_world, quiet_world, quiet_world, quiet_world, quiet_world] info_pending)
                \<lparr>perform_cooldown := False\<rparr>)"
proof -
  let ?e = "(Event_id FileInfo 42)\<lparr>path := Some ''/usb/x.gco''\<rparr>"
  have f: "planned_event file_info_pending = Some ?e" "failed_attempts file_info_pending = 0"
    by (simp_all add: file_info_pending_def quiet_planner_def)
  have ft: "type ?e \<noteq> Info"
    by (simp add: Event_id_def Event_of_def)
  have fo: "observed_transfer file_info_pending = None"
    by (simp add: file_info_pending_def quiet_planner_def)
  have i: "planned_event info_pending = Some (Event_of Info)" "failed_attempts info_pending = 0"
    by (simp_all add: info_pending_def quiet_planner_def)
  have it: "type (Event_of Info) = Info"
    by (simp add: Event_of_def)
  show ?thesis
    using f ft fo i it
      give_up_after_five_failed [OF f, of quiet_world quiet_world quiet_world quiet_world quiet_world]
      give_up_after_five_failed [OF i, of quiet_world quiet_world quiet_world quiet_world quiet_world]
    unfolding Let_def by blast
qed

lemma fail_step_attempts:
  "unat (failed_attempts s) < 4 \<Longrightarrow>
     failed_attempts (action_done w Failed_result s) = failed_attempts s + 1"
  by (simp add: action_done_Failed back_off_fields reconnect_failed_attempts give_up_count)

lemma fail_step_attempts_fifth:
  "failed_attempts s = 4 \<Longrightarrow> failed_attempts (action_done w Failed_result s) = 0"
  by (simp add: action_done_Failed back_off_fields reconnect_failed_attempts give_up_fifth)

lemma action_done_Failed_counting:
  assumes "planned_event s = None" and "last_success s = None"
      and "unat (failed_attempts s) < 4"
  shows "action_done w Failed_result s =
           s\<lparr>failed_attempts := failed_attempts s + 1,
             cooldown := Some (min 60000 (2 * (case cooldown s of None \<Rightarrow> 50 | Some c \<Rightarrow> c))),
             perform_cooldown := True\<rparr>"
proof -
  have g: "give_up s = s\<lparr>failed_attempts := failed_attempts s + 1\<rparr>"
    using assms(3) by (rule give_up_count)
  have r: "reconnect w (give_up s) = give_up s"
    by (simp add: g reconnect_def since_def assms(2) RECONNECT_AFTER_def)
  have "action_done w Failed_result s = back_off (s\<lparr>failed_attempts := failed_attempts s + 1\<rparr>)"
    unfolding action_done_Failed r by (simp only: g)
  then show ?thesis
    by (simp add: back_off_def COOLDOWN_MAX_def COOLDOWN_BASE_def mult.commute
        split: option.splits)
qed

lemma run_to_finished_pending:
  "background_done Success
     (consecutive_failed [quiet_world, quiet_world, quiet_world, quiet_world] gcode_running)
     = Inr finished_pending"
proof -
  let ?w = quiet_world
  let ?s1 = "gcode_running\<lparr>failed_attempts := 1, cooldown := Some 100, perform_cooldown := True\<rparr>"
  let ?s2 = "gcode_running\<lparr>failed_attempts := 2, cooldown := Some 200, perform_cooldown := True\<rparr>"
  let ?s3 = "gcode_running\<lparr>failed_attempts := 3, cooldown := Some 400, perform_cooldown := True\<rparr>"
  let ?s4 = "gcode_running\<lparr>failed_attempts := 4, cooldown := Some 800, perform_cooldown := True\<rparr>"
  have 1: "action_done ?w Failed_result gcode_running = ?s1"
    using action_done_Failed_counting [of gcode_running ?w]
    by (simp add: gcode_running_def quiet_planner_def)
  have 2: "action_done ?w Failed_result ?s1 = ?s2"
    using action_done_Failed_counting [of ?s1 ?w]
    by (simp add: gcode_running_def quiet_planner_def)
  have 3: "action_done ?w Failed_result ?s2 = ?s3"
    using action_done_Failed_counting [of ?s2 ?w]
    by (simp add: gcode_running_def quiet_planner_def)
  have 4: "action_done ?w Failed_result ?s3 = ?s4"
    using action_done_Failed_counting [of ?s3 ?w]
    by (simp add: gcode_running_def quiet_planner_def)
  have "consecutive_failed [?w, ?w, ?w, ?w] gcode_running = ?s4"
    by (simp add: 1 2 3 4)
  then show ?thesis
    by (simp add: background_done_def background_command_id_def gcode_running_def
        quiet_planner_def finished_pending_def)
qed

text \<open>
  C3. The claim: a pending event that is not an Info event is dropped after five
  consecutive calls of \<^verbatim>\<open>action_done(Failed)\<close>, and \<open>failed_attempts\<close> is then 0.
  The code counts failed actions since the last success or give-up and does not reset
  the counter where an event is planned. Four telemetry actions fail while a G-code
  command runs; the command ends and \<^verbatim>\<open>background_done\<close> plans its Finished event with
  the counter at 4; the first failure to send that event drops it, and after five
  failures the counter is 4, not 0.
\<close>

theorem event_dropped_at_first_failed_send:
  "background_done Success
     (consecutive_failed [quiet_world, quiet_world, quiet_world, quiet_world] gcode_running)
     = Inr finished_pending
   \<and> planned_event finished_pending = Some ((Event_of Finished)\<lparr>command_id := Some 7\<rparr>)
   \<and> type ((Event_of Finished)\<lparr>command_id := Some 7\<rparr>) \<noteq> Info
   \<and> failed_attempts finished_pending = 4
   \<and> planned_event (action_done quiet_world Failed_result finished_pending) = None
   \<and> failed_attempts (consecutive_failed
        [quiet_world, quiet_world, quiet_world, quiet_world, quiet_world] finished_pending) = 4"
proof -
  let ?w = quiet_world
  let ?e = "(Event_of Finished)\<lparr>command_id := Some 7\<rparr>"
  let ?s1 = "action_done ?w Failed_result finished_pending"
  let ?s2 = "action_done ?w Failed_result ?s1"
  let ?s3 = "action_done ?w Failed_result ?s2"
  let ?s4 = "action_done ?w Failed_result ?s3"
  let ?s5 = "action_done ?w Failed_result ?s4"
  have 0: "failed_attempts finished_pending = 4" "planned_event finished_pending = Some ?e"
    "last_success finished_pending = None"
    by (simp_all add: finished_pending_def quiet_planner_def)
  have t: "type ?e \<noteq> Info"
    by (simp add: Event_of_def)
  have 1: "failed_attempts ?s1 = 0"
    using 0(1) by (rule fail_step_attempts_fifth)
  have d: "planned_event ?s1 = None"
    using 0 t
    by (simp add: action_done_Failed back_off_fields give_up_fifth reconnect_def since_def
        RECONNECT_AFTER_def)
  have 2: "failed_attempts ?s2 = 1"
    using fail_step_attempts [of ?s1 ?w] 1 by simp
  have 3: "failed_attempts ?s3 = 2"
    using fail_step_attempts [of ?s2 ?w] 2 by simp
  have 4: "failed_attempts ?s4 = 3"
    using fail_step_attempts [of ?s3 ?w] 3 by simp
  have 5: "failed_attempts ?s5 = 4"
    using fail_step_attempts [of ?s4 ?w] 4 by simp
  show ?thesis
    using run_to_finished_pending 0(1,2) t d 5 by simp
qed

subsection \<open>The back-off\<close>

lemma double_capped:
  assumes "x \<le> 60000"
  shows "min (60000 :: 32 word) (2 * word_of_nat x) = word_of_nat (min 60000 (2 * x))"
proof -
  define y where "y = 2 * x"
  have y: "y < 2 ^ 32" using assms by (simp add: y_def)
  have u: "unat (word_of_nat y :: 32 word) = y"
    using y by (simp add: unat_of_nat)
  have e: "(2 * word_of_nat x :: 32 word) = word_of_nat y"
    by (simp add: y_def)
  have le: "(word_of_nat y :: 32 word) \<le> 60000 \<longleftrightarrow> y \<le> 60000"
    by (simp add: word_le_nat_alt u)
  have "min (60000 :: 32 word) (word_of_nat y) = word_of_nat (min 60000 y)"
  proof (cases "y \<le> 60000")
    case True
    then show ?thesis using le by (simp add: min_def)
  next
    case False
    then have "(60000 :: 32 word) \<le> word_of_nat y"
      using le by (meson linear)
    then show ?thesis using False by (simp add: min_def)
  qed
  then show ?thesis unfolding e by (simp only: y_def)
qed

lemma consecutive_failed_cooldown:
  assumes "cooldown s = None" and "ws \<noteq> []"
  shows "cooldown (consecutive_failed ws s) =
           Some (word_of_nat (min 60000 (100 * 2 ^ (length ws - 1))))"
  using assms(2)
proof (induction ws rule: rev_nonempty_induct)
  case (single w)
  show ?case by (simp add: action_done_Failed_cooldown assms(1))
next
  case (snoc w ws)
  obtain k where k: "length ws = Suc k" using snoc.hyps by (cases ws) simp_all
  have "min (60000::nat) (2 * min 60000 (100 * 2 ^ k)) = min 60000 (100 * (2 * 2 ^ k))"
    by (simp add: min_def)
  then show ?case
    by (simp add: consecutive_failed_snoc action_done_Failed_cooldown snoc.IH double_capped k)
qed

lemma action_done_Failed_frame:
  "background_command (action_done w Failed_result s) = background_command s"
  "download (action_done w Failed_result s) = download s"
  by (simp_all add: action_done_Failed back_off_def reconnect_def give_up_def Let_def
      split: option.splits)

lemma consecutive_failed_frame:
  "background_command (consecutive_failed ws s) = background_command s
   \<and> download (consecutive_failed ws s) = download s"
  by (induction ws arbitrary: s) (simp_all add: action_done_Failed_frame)

lemma cooldown_first_twelve:
  assumes "cooldown s = None"
  shows "map (\<lambda>n. cooldown (consecutive_failed (replicate n w) s))
             [1, 2, 3, 4, 5, 6, 7, 8, 9, 10, 11, 12] =
         map Some [100, 200, 400, 800, 1600, 3200, 6400, 12800, 25600, 51200, 60000, 60000]"
proof -
  have f: "cooldown (consecutive_failed (replicate n w) s) =
             Some (word_of_nat (min 60000 (100 * 2 ^ (n - 1))))"
    if "0 < n" for n
    using consecutive_failed_cooldown [OF assms, of "replicate n w"] that by simp
  have "cooldown (consecutive_failed (replicate 1 w) s) = Some 100" using f [of 1] by simp
  moreover have "cooldown (consecutive_failed (replicate 2 w) s) = Some 200" using f [of 2] by simp
  moreover have "cooldown (consecutive_failed (replicate 3 w) s) = Some 400" using f [of 3] by simp
  moreover have "cooldown (consecutive_failed (replicate 4 w) s) = Some 800" using f [of 4] by simp
  moreover have "cooldown (consecutive_failed (replicate 5 w) s) = Some 1600" using f [of 5] by simp
  moreover have "cooldown (consecutive_failed (replicate 6 w) s) = Some 3200" using f [of 6] by simp
  moreover have "cooldown (consecutive_failed (replicate 7 w) s) = Some 6400" using f [of 7] by simp
  moreover have "cooldown (consecutive_failed (replicate 8 w) s) = Some 12800" using f [of 8] by simp
  moreover have "cooldown (consecutive_failed (replicate 9 w) s) = Some 25600" using f [of 9] by simp
  moreover have "cooldown (consecutive_failed (replicate 10 w) s) = Some 51200"
    using f [of 10] by simp
  moreover have "cooldown (consecutive_failed (replicate 11 w) s) = Some 60000"
    using f [of 11] by simp
  moreover have "cooldown (consecutive_failed (replicate 12 w) s) = Some 60000"
    using f [of 12] by simp
  ultimately show ?thesis by (simp only: list.map)
qed

text \<open>
  C4. Starting from \<open>cooldown = None\<close>, after \<open>N \<ge> 1\<close> consecutive calls of
  \<^verbatim>\<open>action_done(Failed)\<close> the cooldown is \<open>min 60000 (100 * 2 ^ (N - 1))\<close> ms, that is
  100, 200, 400, ..., 51200, 60000, 60000 for N from 1 to 12; each call sets it to the
  minimum of 60 000 and twice the previous value (50 when there is none); and
  \<open>perform_cooldown\<close> is set, so that the next action is a Sleep whose duration is that
  cooldown (it carries the background command when no event is pending, and the
  download), after which \<open>perform_cooldown\<close> is clear again.
\<close>

theorem cooldown_sequence:
  assumes "cooldown s = None" and "ws \<noteq> []"
  shows "cooldown (consecutive_failed ws s) =
           Some (word_of_nat (min 60000 (100 * 2 ^ (length ws - 1))))
       \<and> perform_cooldown (consecutive_failed ws s)
       \<and> (\<forall>w. next_action w (consecutive_failed ws s) =
              Inr (ActSleep (Sleep (word_of_nat (min 60000 (100 * 2 ^ (length ws - 1))))
                               (if planned_event (consecutive_failed ws s) = None
                                then map_option bg_command (background_command s) else None)
                               (download s)),
                   (consecutive_failed ws s)\<lparr>perform_cooldown := False\<rparr>))
       \<and> (\<forall>w. case next_action w (consecutive_failed ws s) of
                Inr (ActSleep sl, s') \<Rightarrow>
                  Some (milliseconds sl) = cooldown (consecutive_failed ws s)
              | _ \<Rightarrow> False)
       \<and> (\<forall>w. map (\<lambda>n. cooldown (consecutive_failed (replicate n w) s))
                   [1, 2, 3, 4, 5, 6, 7, 8, 9, 10, 11, 12] =
                map Some [100, 200, 400, 800, 1600, 3200, 6400, 12800, 25600, 51200,
                          60000, 60000])
       \<and> (\<forall>w s0. cooldown (action_done w Failed_result s0) =
              Some (min 60000 (2 * (case cooldown s0 of None \<Rightarrow> 50 | Some c \<Rightarrow> c))))"
proof -
  define S where "S = consecutive_failed ws s"
  define c :: Duration where "c = word_of_nat (min 60000 (100 * 2 ^ (length ws - 1)))"
  have c: "cooldown S = Some c"
    unfolding S_def c_def using assms by (rule consecutive_failed_cooldown)
  have p: "perform_cooldown S"
    unfolding S_def using assms(2) by (rule consecutive_failed_perform)
  have f: "background_command S = background_command s" "download S = download s"
    using consecutive_failed_frame [of ws s] by (simp_all add: S_def)
  have n: "next_action w S =
             Inr (ActSleep (Sleep c
                    (if planned_event S = None
                     then map_option bg_command (background_command s) else None)
                    (download s)),
                  S\<lparr>perform_cooldown := False\<rparr>)" for w
    using next_action_cooldown [OF p c, of w] by (simp only: f)
  have m: "case next_action w S of
             Inr (ActSleep sl, s') \<Rightarrow> Some (milliseconds sl) = cooldown S
           | _ \<Rightarrow> False" for w
    by (simp add: n c)
  show ?thesis
    using c p n m action_done_Failed_cooldown cooldown_first_twelve [OF assms(1)]
    unfolding S_def c_def by blast
qed

text \<open>Scenario 3 of the spec: three failures in a row, the third cooldown is 400 ms, and
  the next action is a Sleep of 400 ms with nothing to work on.\<close>

theorem cooldown_sequence_witness:
  "cooldown quiet_planner = None
   \<and> [quiet_world, quiet_world, quiet_world] \<noteq> []
   \<and> cooldown (consecutive_failed [quiet_world, quiet_world, quiet_world] quiet_planner)
       = Some 400
   \<and> perform_cooldown (consecutive_failed [quiet_world, quiet_world, quiet_world] quiet_planner)
   \<and> next_action quiet_world
       (consecutive_failed [quiet_world, quiet_world, quiet_world] quiet_planner)
     = Inr (ActSleep (Sleep 400 None None),
            (consecutive_failed [quiet_world, quiet_world, quiet_world] quiet_planner)
              \<lparr>perform_cooldown := False\<rparr>)"
proof -
  have c: "cooldown quiet_planner = None"
    by (simp add: quiet_planner_def)
  have n: "[quiet_world, quiet_world, quiet_world] \<noteq> []"
    by simp
  have v: "(word_of_nat (min 60000 (100 * 2 ^ (length [quiet_world, quiet_world, quiet_world] - 1)))
             :: 32 word) = 400"
    by simp
  have b: "map_option bg_command (background_command quiet_planner) = None"
    "download quiet_planner = None"
    by (simp_all add: quiet_planner_def)
  have i: "(if planned_event (consecutive_failed [quiet_world, quiet_world, quiet_world]
                 quiet_planner) = None
            then (None :: BackgroundGcode option) else None) = None"
    by (rule if_cancel)
  show ?thesis
    using c n cooldown_sequence [OF c n] unfolding v b i by blast
qed

subsection \<open>Telemetry after an event was sent\<close>

lemma observe_transfer_edge:
  assumes "observed_transfer s = Some t" and "monitor_id w \<noteq> Some t"
      and "monitor_outcome w t = Some out"
  shows "observe_transfer w s =
           (Some ((Event_of (outcome_event_type out))
                    \<lparr>transfer_id := Some t, start_cmd_id := transfer_start_cmd s\<rparr>),
            s\<lparr>observed_transfer := monitor_id w,
              planned_event := Some ((Event_of (outcome_event_type out))
                    \<lparr>transfer_id := Some t, start_cmd_id := transfer_start_cmd s\<rparr>),
              transfer_start_cmd := None\<rparr>)"
  using assms by (auto simp: observe_transfer_def Let_def)

lemma probe_changes_clean:
  assumes "\<not> fst (set_hash (info_fingerprint w) (info_changes s))"
      and "\<not> fst (set_hash (files_hash w) (file_changes s))"
  shows "probe_changes w s = (False, s)"
proof -
  have i: "set_hash (info_fingerprint w) (info_changes s) = (False, info_changes s)"
    using assms(1) by (auto simp: set_hash_def Let_def split: if_splits)
  have f: "set_hash (files_hash w) (file_changes s) = (False, file_changes s)"
    using assms(2) by (auto simp: set_hash_def Let_def split: if_splits)
  show ?thesis
    by (simp add: probe_changes_def i f)
qed

lemma action_done_Ok_event:
  assumes "planned_event s = Some e" and "type e \<noteq> Info"
  shows "action_done w Ok s =
           s\<lparr>last_success := Some (now w), perform_cooldown := False, cooldown := None,
             failed_attempts := 0, planned_event := None, last_telemetry := None\<rparr>"
  using assms by (simp add: action_done_def Let_def)

lemma observe_transfer_none:
  assumes "case observed_transfer s of None \<Rightarrow> True
           | Some t \<Rightarrow> monitor_id w = Some t \<or> monitor_outcome w t = None"
  shows "fst (observe_transfer w s) = None \<and> last_telemetry (snd (observe_transfer w s)) = last_telemetry s"
  using assms by (auto simp: observe_transfer_def Let_def split: option.splits)

text \<open>
  C2, as amended. For every Planner state in which \<^verbatim>\<open>action_done(Ok)\<close> consumes a
  pending event that is not an Info event, the next call of \<^verbatim>\<open>next_action\<close> returns
  SendTelemetry, provided that at that call neither change tracker reports a change and
  no terminal event of a transfer is due (the Planner watches no transfer, or the monitor
  still reports the watched one, or has no outcome for it).
\<close>

theorem telemetry_after_event_sent:
  assumes "planned_event s = Some e" and "type e \<noteq> Info"
      and "\<not> fst (set_hash (info_fingerprint w') (info_changes s))"
      and "\<not> fst (set_hash (files_hash w') (file_changes s))"
      and "case observed_transfer s of None \<Rightarrow> True
           | Some t \<Rightarrow> monitor_id w' = Some t \<or> monitor_outcome w' t = None"
  shows "\<exists>s'. next_action w' (action_done w Ok s) = Inr (SendTelemetry False, s')"
proof -
  define s1 where "s1 = action_done w Ok s"
  have s1: "s1 = s\<lparr>last_success := Some (now w), perform_cooldown := False, cooldown := None,
             failed_attempts := 0, planned_event := None, last_telemetry := None\<rparr>"
    unfolding s1_def using assms(1,2) by (rule action_done_Ok_event)
  have p: "probe_changes w' s1 = (False, s1)"
    by (rule probe_changes_clean) (simp_all add: s1 assms(3,4))
  have o: "fst (observe_transfer w' s1) = None
      \<and> last_telemetry (snd (observe_transfer w' s1)) = last_telemetry s1"
    by (rule observe_transfer_none) (use assms(5) in \<open>simp add: s1\<close>)
  have f: "\<not> perform_cooldown s1" "planned_event s1 = None" "last_telemetry s1 = None"
    by (simp_all add: s1)
  obtain oe s2 where os: "observe_transfer w' s1 = (oe, s2)" by (cases "observe_transfer w' s1")
  with o f have oe: "oe = None" and lt: "last_telemetry s2 = None" by simp_all
  have "telemetry_action w' s2 = SendTelemetry False"
    by (simp add: telemetry_action_def since_def lt)
  then have "next_action w' s1 = Inr (SendTelemetry False, s2)"
    by (simp add: next_action_def p os oe f)
  then show ?thesis unfolding s1_def by blast
qed

text \<open>Scenario 2 of the spec: the Accepted event was sent and nothing else changed.\<close>

theorem telemetry_after_event_sent_witness:
  "planned_event accepted_pending = Some (Event_id Accepted 7)
   \<and> type (Event_id Accepted 7) \<noteq> Info
   \<and> \<not> fst (set_hash (info_fingerprint quiet_world) (info_changes accepted_pending))
   \<and> \<not> fst (set_hash (files_hash quiet_world) (file_changes accepted_pending))
   \<and> observed_transfer accepted_pending = None
   \<and> map_sum id fst (next_action quiet_world (action_done quiet_world Ok accepted_pending))
       = Inr (SendTelemetry False)"
proof -
  have h: "planned_event accepted_pending = Some (Event_id Accepted 7)"
    "type (Event_id Accepted 7) \<noteq> Info"
    "\<not> fst (set_hash (info_fingerprint quiet_world) (info_changes accepted_pending))"
    "\<not> fst (set_hash (files_hash quiet_world) (file_changes accepted_pending))"
    by (simp_all add: accepted_pending_def quiet_planner_def quiet_world_def Event_id_def
        Event_of_def set_hash_def)
  have o: "observed_transfer accepted_pending = None"
    by (simp add: accepted_pending_def quiet_planner_def)
  have t: "case observed_transfer accepted_pending of None \<Rightarrow> True
           | Some t \<Rightarrow> monitor_id quiet_world = Some t \<or> monitor_outcome quiet_world t = None"
    by (simp add: o)
  show ?thesis
    using h o telemetry_after_event_sent [OF h t, of quiet_world] by auto
qed

text \<open>The claim as stated fails when the printer's fingerprint changed in the meantime:
  the Info event comes before telemetry.\<close>

theorem info_before_telemetry_counterexample:
  "planned_event accepted_pending = Some (Event_id Accepted 7)
   \<and> type (Event_id Accepted 7) \<noteq> Info
   \<and> map_sum id fst
       (next_action (quiet_world\<lparr>info_fingerprint := 1\<rparr>)
          (action_done quiet_world Ok accepted_pending))
       = Inr (ActEvent (Event_of Info))"
proof -
  have h: "planned_event accepted_pending = Some (Event_id Accepted 7)"
    "type (Event_id Accepted 7) \<noteq> Info"
    by (simp_all add: accepted_pending_def quiet_planner_def Event_id_def Event_of_def)
  define s1 where "s1 = action_done quiet_world Ok accepted_pending"
  have s1: "s1 = accepted_pending\<lparr>last_success := Some (now quiet_world),
             perform_cooldown := False, cooldown := None,
             failed_attempts := 0, planned_event := None, last_telemetry := None\<rparr>"
    unfolding s1_def using h by (rule action_done_Ok_event)
  have f: "\<not> perform_cooldown s1" "planned_event s1 = None"
    by (simp_all add: s1)
  have i: "info_changes s1 = \<lparr>hash = 0, dirty = False\<rparr>" "file_changes s1 = \<lparr>hash = 0, dirty = False\<rparr>"
    by (simp_all add: s1 accepted_pending_def quiet_planner_def)
  have p: "probe_changes (quiet_world\<lparr>info_fingerprint := 1\<rparr>) s1
             = (True, s1\<lparr>info_changes := \<lparr>hash = 1, dirty = True\<rparr>\<rparr>)"
    by (simp add: probe_changes_def set_hash_def i quiet_world_def)
  have e: "info_event (s1\<lparr>info_changes := \<lparr>hash = 1, dirty = True\<rparr>\<rparr>) = Event_of Info"
    by (simp add: info_event_def is_dirty_def i)
  have "map_sum id fst (next_action (quiet_world\<lparr>info_fingerprint := 1\<rparr>) s1)
          = Inr (ActEvent (Event_of Info))"
    by (simp add: next_action_def f p e Let_def)
  then show ?thesis using h unfolding s1_def by simp
qed

subsection \<open>The terminal event of a transfer\<close>

lemma transfer_id_Event_of [simp]: "transfer_id (Event_of ty) = None"
  by (simp add: Event_of_def)

lemma transfer_id_Event_id [simp]: "transfer_id (Event_id ty i) = None"
  by (simp add: Event_id_def)

lemma transfer_id_Event_rejected [simp]: "transfer_id (Event_rejected i r) = None"
  by (simp add: Event_rejected_def)

lemma transfer_id_info_event [simp]: "transfer_id (info_event s) = None"
  by (simp add: info_event_def)

lemma probe_changes_planned: "probe_changes w s = (ch, s1) \<Longrightarrow>
   planned_event s1 = planned_event s \<and> observed_transfer s1 = observed_transfer s"
  using probe_changes_fields [of w s] by simp

lemma observe_transfer_unwatched:
  assumes "observe_transfer w s = (oe, s2)" and "observed_transfer s \<noteq> Some t"
      and "monitor_id w \<noteq> Some t"
  shows "observed_transfer s2 \<noteq> Some t"
    and "oe = None \<Longrightarrow> planned_event s2 = planned_event s"
    and "oe = Some e \<Longrightarrow> planned_event s2 = Some e \<and> transfer_id e \<noteq> Some t"
  using assms
  by (auto simp: observe_transfer_def Let_def split: if_splits option.splits)

lemma next_action_unwatched:
  assumes "next_action w s = Inr (a, s')" and "observed_transfer s \<noteq> Some t"
      and "monitor_id w \<noteq> Some t"
  shows "unwatched t s s'"
proof (cases "perform_cooldown s")
  case True
  then show ?thesis using assms(1,2)
    by (auto simp: next_action_def Let_def unwatched_def newly_planned_def
        split: option.splits)
next
  case pc: False
  show ?thesis
  proof (cases "planned_event s")
    case (Some e)
    then show ?thesis using assms(1,2) pc
      by (auto simp: next_action_def unwatched_def newly_planned_def)
  next
    case None
    obtain ch s1 where p: "probe_changes w s = (ch, s1)" by (cases "probe_changes w s")
    note p1 = probe_changes_planned [OF p]
    show ?thesis
    proof (cases ch)
      case True
      then show ?thesis using assms(1,2) pc None p p1
        by (auto simp: next_action_def Let_def unwatched_def newly_planned_def)
    next
      case False
      obtain oe s2 where o: "observe_transfer w s1 = (oe, s2)"
        by (cases "observe_transfer w s1")
      have u: "observed_transfer s1 \<noteq> Some t" using p1 assms(2) by simp
      note o1 = observe_transfer_unwatched [OF o u assms(3)]
      have s': "s' = s2" using assms(1) pc None p False o
        by (auto simp: next_action_def split: option.splits)
      show ?thesis
      proof (cases oe)
        case None2: None
        then show ?thesis using o1(1,2) p1 None s'
          by (simp add: unwatched_def newly_planned_def)
      next
        case (Some e)
        then show ?thesis using o1(1,3) s'
          by (simp add: unwatched_def newly_planned_def)
      qed
    qed
  qed
qed

lemma action_done_planned:
  "planned_event (action_done w r s) = None
   \<or> planned_event (action_done w r s) = planned_event s
   \<or> planned_event (action_done w r s) = Some (Event_of Info)"
  by (auto simp: action_done_def Let_def back_off_def reconnect_def give_up_def
      split: option.splits)

lemma action_done_observed:
  "observed_transfer (action_done w r s) = observed_transfer s"
  by (auto simp: action_done_def Let_def back_off_def reconnect_def give_up_def
      split: option.splits)

lemma action_done_unwatched:
  "observed_transfer s \<noteq> Some t \<Longrightarrow> unwatched t s (action_done w r s)"
  using action_done_planned [of w r s]
  by (auto simp: unwatched_def newly_planned_def action_done_observed split: option.splits)

lemma command_visit_effect:
  assumes "command_visit w c s = Inr (calls, s')"
  shows "observed_transfer s' = observed_transfer s
       \<and> (\<exists>e. planned_event s' = Some e \<and> transfer_id e = None)"
  using assms
  by (cases "command_data c")
    (auto simp: command_visit_def command_UnknownCommand_def command_BrokenCommand_def
      command_GcodeTooLarge_def command_ProcessingOtherCommand_def
      command_ProcessingThisCommand_def command_Gcode_def command_JC_def
      command_StartPrint_def command_SendInfo_def command_SendJobInfo_def
      command_SendFileInfo_def command_SendTransferInfo_def command_SetPrinterReady_def
      command_CancelPrinterReady_def command_StartConnectDownload_def Let_def
      split: if_splits prod.splits DownloadResult.splits)

lemma command_unwatched:
  assumes "command w c s = Inr (calls, s')" and "observed_transfer s \<noteq> Some t"
  shows "unwatched t s s'"
proof (cases "background_command s = None")
  case True
  then have "command_visit w c s = Inr (calls, s')"
    using assms(1) by (simp add: command_def split: if_splits)
  from command_visit_effect [OF this] show ?thesis
    using assms(2) by (auto simp: unwatched_def newly_planned_def)
next
  case False
  then show ?thesis using assms
    by (auto simp: command_def unwatched_def newly_planned_def split: if_splits)
qed

lemma background_done_unwatched:
  assumes "background_done r s = Inr s'" and "observed_transfer s \<noteq> Some t"
  shows "unwatched t s s'"
  using assms
  by (auto simp: background_done_def unwatched_def newly_planned_def split: if_splits)

lemma download_done_unwatched:
  assumes "download_done w s = Inr s'" and "monitor_id w \<noteq> Some t"
  shows "unwatched t s s'"
  using assms
  by (auto simp: download_done_def Let_def unwatched_def newly_planned_def split: if_splits)

lemma planned_in_run_unwatched:
  "observed_transfer s \<noteq> Some t \<Longrightarrow> monitor_never t steps \<Longrightarrow>
     \<forall>e \<in> set (planned_in_run steps s). transfer_id e \<noteq> Some t"
proof (induction steps arbitrary: s)
  case Nil
  show ?case by simp
next
  case (Cons st steps)
  show ?case
  proof (cases st)
    case (Step_next_action w)
    show ?thesis
    proof (cases "next_action w s")
      case (Inl err)
      then show ?thesis using Step_next_action by simp
    next
      case (Inr r)
      obtain a s' where r: "r = (a, s')" by (cases r)
      have m: "monitor_id w \<noteq> Some t" "monitor_never t steps"
        using Cons.prems(2) Step_next_action by simp_all
      have "unwatched t s s'"
        using Inr r Cons.prems(1) m(1) by (intro next_action_unwatched) simp_all
      then show ?thesis
        using Cons.IH [of s'] m(2) Inr r Step_next_action by (auto simp: unwatched_def)
    qed
  next
    case (Step_action_done w r)
    have "unwatched t s (action_done w r s)"
      using Cons.prems(1) by (rule action_done_unwatched)
    then show ?thesis
      using Cons.IH [of "action_done w r s"] Cons.prems(2) Step_action_done
      by (auto simp: unwatched_def Let_def)
  next
    case (Step_command w c)
    show ?thesis
    proof (cases "command w c s")
      case (Inl err)
      then show ?thesis using Step_command by simp
    next
      case (Inr r)
      obtain calls s' where r: "r = (calls, s')" by (cases r)
      have "unwatched t s s'"
        using Inr r Cons.prems(1) by (intro command_unwatched) simp_all
      then show ?thesis
        using Cons.IH [of s'] Cons.prems(2) Inr r Step_command by (auto simp: unwatched_def)
    qed
  next
    case (Step_background_done r)
    show ?thesis
    proof (cases "background_done r s")
      case (Inl err)
      then show ?thesis using Step_background_done by simp
    next
      case (Inr s')
      have "unwatched t s s'"
        using Inr Cons.prems(1) by (rule background_done_unwatched)
      then show ?thesis
        using Cons.IH [of s'] Cons.prems(2) Inr Step_background_done by (auto simp: unwatched_def)
    qed
  next
    case (Step_download_done w)
    show ?thesis
    proof (cases "download_done w s")
      case (Inl err)
      then show ?thesis using Step_download_done by simp
    next
      case (Inr s')
      have m: "monitor_id w \<noteq> Some t" "monitor_never t steps"
        using Cons.prems(2) Step_download_done by simp_all
      have "unwatched t s s'"
        using Inr m(1) by (rule download_done_unwatched)
      then show ?thesis
        using Cons.IH [of s'] m(2) Inr Step_download_done by (auto simp: unwatched_def)
    qed
  qed
qed

lemma length_newly_planned: "length (newly_planned s s') \<le> 1"
  by (simp add: newly_planned_def split: option.splits)

lemma next_action_plans:
  assumes "next_action w s = Inr (a, s')" and "monitor_id w \<noteq> Some t"
  shows "(\<forall>e \<in> set (newly_planned s s'). transfer_id e \<noteq> Some t)
       \<or> observed_transfer s' \<noteq> Some t"
proof (cases "perform_cooldown s")
  case True
  then show ?thesis using assms(1)
    by (auto simp: next_action_def Let_def newly_planned_def split: option.splits)
next
  case pc: False
  show ?thesis
  proof (cases "planned_event s")
    case (Some e)
    then show ?thesis using assms(1) pc
      by (auto simp: next_action_def newly_planned_def)
  next
    case None
    obtain ch s1 where p: "probe_changes w s = (ch, s1)" by (cases "probe_changes w s")
    note p1 = probe_changes_planned [OF p]
    show ?thesis
    proof (cases ch)
      case True
      then show ?thesis using assms(1) pc None p p1
        by (auto simp: next_action_def Let_def newly_planned_def)
    next
      case False
      obtain oe s2 where o: "observe_transfer w s1 = (oe, s2)"
        by (cases "observe_transfer w s1")
      have s': "s' = s2" using assms(1) pc None p False o
        by (auto simp: next_action_def split: option.splits)
      show ?thesis
      proof (cases "observed_transfer s1 = monitor_id w")
        case True
        then have "oe = None" "s2 = s1" using o by (simp_all add: observe_transfer_def)
        then show ?thesis using s' p1 None by (simp add: newly_planned_def)
      next
        case False
        then have "observed_transfer s2 = monitor_id w"
          using o by (auto simp: observe_transfer_def Let_def split: option.splits)
        then show ?thesis using s' assms(2) by simp
      qed
    qed
  qed
qed

lemma action_done_plans:
  "\<forall>e \<in> set (newly_planned s (action_done w r s)). transfer_id e \<noteq> Some t"
  using action_done_planned [of w r s]
  by (auto simp: newly_planned_def split: option.splits)

lemma command_plans:
  assumes "command w c s = Inr (calls, s')"
  shows "\<forall>e \<in> set (newly_planned s s'). transfer_id e \<noteq> Some t"
proof (cases "background_command s = None")
  case True
  then have "command_visit w c s = Inr (calls, s')"
    using assms by (simp add: command_def split: if_splits)
  from command_visit_effect [OF this] show ?thesis
    by (auto simp: newly_planned_def)
next
  case False
  then show ?thesis using assms
    by (auto simp: command_def newly_planned_def split: if_splits)
qed

lemma background_done_plans:
  assumes "background_done r s = Inr s'"
  shows "\<forall>e \<in> set (newly_planned s s'). transfer_id e \<noteq> Some t"
  using assms
  by (auto simp: background_done_def newly_planned_def split: if_splits)

lemma download_done_plans:
  assumes "download_done w s = Inr s'"
  shows "\<forall>e \<in> set (newly_planned s s'). transfer_id e \<noteq> Some t"
  using assms
  by (auto simp: download_done_def Let_def newly_planned_def split: if_splits option.splits)

lemma planned_for_transfer_none:
  "observed_transfer s \<noteq> Some t \<Longrightarrow> monitor_never t steps \<Longrightarrow>
     filter (\<lambda>e. transfer_id e = Some t) (planned_in_run steps s) = []"
  using planned_in_run_unwatched [of s t steps] by (simp add: filter_empty_conv)

lemma step_at_most_one:
  assumes "(\<forall>e \<in> set (newly_planned s s'). transfer_id e \<noteq> Some t)
           \<or> observed_transfer s' \<noteq> Some t"
      and "monitor_never t steps"
      and "length (filter (\<lambda>e. transfer_id e = Some t) (planned_in_run steps s')) \<le> 1"
  shows "length (filter (\<lambda>e. transfer_id e = Some t)
           (newly_planned s s' @ planned_in_run steps s')) \<le> 1"
proof (cases "\<forall>e \<in> set (newly_planned s s'). transfer_id e \<noteq> Some t")
  case True
  then have "filter (\<lambda>e. transfer_id e = Some t) (newly_planned s s') = []"
    by (simp add: filter_empty_conv)
  then show ?thesis using assms(3) by simp
next
  case False
  with assms(1) have "observed_transfer s' \<noteq> Some t" by blast
  then have "filter (\<lambda>e. transfer_id e = Some t) (planned_in_run steps s') = []"
    using assms(2) by (rule planned_for_transfer_none)
  moreover have "length (filter (\<lambda>e. transfer_id e = Some t) (newly_planned s s')) \<le> 1"
    by (rule order_trans [OF length_filter_le length_newly_planned])
  ultimately show ?thesis by simp
qed

lemma planned_for_transfer_at_most_one:
  "monitor_never t steps \<Longrightarrow>
     length (filter (\<lambda>e. transfer_id e = Some t) (planned_in_run steps s)) \<le> 1"
proof (induction steps arbitrary: s)
  case Nil
  show ?case by simp
next
  case (Cons st steps)
  show ?case
  proof (cases st)
    case (Step_next_action w)
    have m: "monitor_id w \<noteq> Some t" "monitor_never t steps"
      using Cons.prems Step_next_action by simp_all
    show ?thesis
    proof (cases "next_action w s")
      case (Inl err)
      then show ?thesis using Step_next_action by simp
    next
      case (Inr r)
      obtain a s' where r: "r = (a, s')" by (cases r)
      have "length (filter (\<lambda>e. transfer_id e = Some t)
              (newly_planned s s' @ planned_in_run steps s')) \<le> 1"
        using next_action_plans [of w s a s' t] Inr r m Cons.IH [OF m(2), of s']
        by (intro step_at_most_one) simp_all
      then show ?thesis using Inr r Step_next_action by simp
    qed
  next
    case (Step_action_done w r)
    have m: "monitor_never t steps" using Cons.prems Step_action_done by simp
    have "length (filter (\<lambda>e. transfer_id e = Some t)
            (newly_planned s (action_done w r s) @ planned_in_run steps (action_done w r s)))
            \<le> 1"
      using action_done_plans [of s w r t] m Cons.IH [OF m, of "action_done w r s"]
      by (intro step_at_most_one) simp_all
    then show ?thesis using Step_action_done by (simp add: Let_def)
  next
    case (Step_command w c)
    have m: "monitor_never t steps" using Cons.prems Step_command by simp
    show ?thesis
    proof (cases "command w c s")
      case (Inl err)
      then show ?thesis using Step_command by simp
    next
      case (Inr r)
      obtain calls s' where r: "r = (calls, s')" by (cases r)
      have "length (filter (\<lambda>e. transfer_id e = Some t)
              (newly_planned s s' @ planned_in_run steps s')) \<le> 1"
        using command_plans [of w c s calls s' t] Inr r m Cons.IH [OF m, of s']
        by (intro step_at_most_one) simp_all
      then show ?thesis using Inr r Step_command by simp
    qed
  next
    case (Step_background_done r)
    have m: "monitor_never t steps" using Cons.prems Step_background_done by simp
    show ?thesis
    proof (cases "background_done r s")
      case (Inl err)
      then show ?thesis using Step_background_done by simp
    next
      case (Inr s')
      have "length (filter (\<lambda>e. transfer_id e = Some t)
              (newly_planned s s' @ planned_in_run steps s')) \<le> 1"
        using background_done_plans [of r s s' t] Inr m Cons.IH [OF m, of s']
        by (intro step_at_most_one) simp_all
      then show ?thesis using Inr Step_background_done by simp
    qed
  next
    case (Step_download_done w)
    have m: "monitor_never t steps" using Cons.prems Step_download_done by simp
    show ?thesis
    proof (cases "download_done w s")
      case (Inl err)
      then show ?thesis using Step_download_done by simp
    next
      case (Inr s')
      have "length (filter (\<lambda>e. transfer_id e = Some t)
              (newly_planned s s' @ planned_in_run steps s')) \<le> 1"
        using download_done_plans [of w s s' t] Inr m Cons.IH [OF m, of s']
        by (intro step_at_most_one) simp_all
      then show ?thesis using Inr Step_download_done by simp
    qed
  qed
qed

lemma observe_transfer_same:
  "observed_transfer s = monitor_id w \<Longrightarrow> observe_transfer w s = (None, s)"
  by (simp add: observe_transfer_def)

text \<open>
  C5. When a call of \<^verbatim>\<open>next_action\<close> observes that the monitor's current transfer
  differs from \<open>observed_transfer = Some t\<close> (the call reaches the transfer check: no
  cooldown to perform, no event pending, neither change tracker reporting a change) and
  the monitor still has an outcome for \<open>t\<close>, the call plans and returns one terminal
  event (TransferFinished for Finished, TransferAborted for Error, TransferStopped for
  Stopped) with \<open>transfer_id = t\<close> and \<open>start_cmd_id = transfer_start_cmd\<close>, clears
  \<open>transfer_start_cmd\<close> and sets \<open>observed_transfer\<close> to the current transfer. In every
  run of Planner calls that starts with this call and in which the monitor does not report
  \<open>t\<close> as the current transfer again, the events planned for transfer \<open>t\<close> are this
  one and no other; and in no run of Planner calls, from whatever state, in which the
  monitor never reports \<open>t\<close> as current, are two events planned for transfer \<open>t\<close>.
\<close>

theorem terminal_event_once:
  assumes "\<not> perform_cooldown s" and "planned_event s = None"
      and "\<not> fst (set_hash (info_fingerprint w) (info_changes s))"
      and "\<not> fst (set_hash (files_hash w) (file_changes s))"
      and "observed_transfer s = Some t" and "monitor_id w \<noteq> Some t"
      and "monitor_outcome w t = Some out"
  shows "let e = \<lparr>type = (case out of Outcome_Finished \<Rightarrow> TransferFinished
                                   | Outcome_Error \<Rightarrow> TransferAborted
                                   | Outcome_Stopped \<Rightarrow> TransferStopped),
                  command_id = None, job_id = None, path = None, transfer_id = Some t,
                  reason = None, info_rescan_files = False,
                  start_cmd_id = transfer_start_cmd s\<rparr>;
             s' = s\<lparr>observed_transfer := monitor_id w, planned_event := Some e,
                    transfer_start_cmd := None\<rparr>
         in next_action w s = Inr (ActEvent e, s')
          \<and> (\<forall>steps. monitor_never t steps \<longrightarrow>
                filter (\<lambda>e'. transfer_id e' = Some t)
                  (planned_in_run (Step_next_action w # steps) s) = [e])
          \<and> (\<forall>steps s0. monitor_never t steps \<longrightarrow>
                length (filter (\<lambda>e'. transfer_id e' = Some t) (planned_in_run steps s0)) \<le> 1)"
proof -
  define e where "e = (Event_of (outcome_event_type out))
                    \<lparr>transfer_id := Some t, start_cmd_id := transfer_start_cmd s\<rparr>"
  define s' where "s' = s\<lparr>observed_transfer := monitor_id w, planned_event := Some e,
                    transfer_start_cmd := None\<rparr>"
  have e: "e = \<lparr>type = (case out of Outcome_Finished \<Rightarrow> TransferFinished
                                   | Outcome_Error \<Rightarrow> TransferAborted
                                   | Outcome_Stopped \<Rightarrow> TransferStopped),
                  command_id = None, job_id = None, path = None, transfer_id = Some t,
                  reason = None, info_rescan_files = False,
                  start_cmd_id = transfer_start_cmd s\<rparr>"
    by (simp add: e_def Event_of_def outcome_event_type_def)
  have te: "transfer_id e = Some t"
    by (simp add: e_def)
  have p: "probe_changes w s = (False, s)"
    using assms(3,4) by (rule probe_changes_clean)
  have o: "observe_transfer w s = (Some e, s')"
    unfolding e_def s'_def using assms(5-7) by (rule observe_transfer_edge)
  have n: "next_action w s = Inr (ActEvent e, s')"
    by (simp add: next_action_def assms(1,2) p o)
  have np: "newly_planned s s' = [e]"
    by (simp add: newly_planned_def s'_def assms(2))
  have u: "observed_transfer s' \<noteq> Some t"
    using assms(6) by (simp add: s'_def)
  have one: "filter (\<lambda>e'. transfer_id e' = Some t)
               (planned_in_run (Step_next_action w # steps) s) = [e]"
    if "monitor_never t steps" for steps
    using planned_for_transfer_none [OF u that] by (simp add: n np te)
  have most: "length (filter (\<lambda>e'. transfer_id e' = Some t) (planned_in_run steps s0)) \<le> 1"
    if "monitor_never t steps" for steps s0
    using that by (rule planned_for_transfer_at_most_one)
  show ?thesis
    unfolding Let_def e [symmetric] s'_def [symmetric]
    using n one most by blast
qed

text \<open>Scenario 6 of the spec: the download is over, the monitor reports no current
  transfer and keeps the outcome Finished. The terminal event is planned by the first
  call; it is sent, and the next call, for which the monitor still has the outcome, sends
  telemetry and plans nothing.\<close>

theorem terminal_event_once_witness:
  "\<not> perform_cooldown transfer_ended \<and> planned_event transfer_ended = None
   \<and> \<not> fst (set_hash (info_fingerprint transfer_ended_world) (info_changes transfer_ended))
   \<and> \<not> fst (set_hash (files_hash transfer_ended_world) (file_changes transfer_ended))
   \<and> observed_transfer transfer_ended = Some 3
   \<and> monitor_id transfer_ended_world \<noteq> Some 3
   \<and> monitor_outcome transfer_ended_world 3 = Some Outcome_Finished
   \<and> next_action transfer_ended_world transfer_ended =
       Inr (ActEvent ((Event_of TransferFinished)\<lparr>transfer_id := Some 3, start_cmd_id := Some 9\<rparr>),
            transfer_ended
              \<lparr>observed_transfer := None,
               planned_event :=
                 Some ((Event_of TransferFinished)\<lparr>transfer_id := Some 3, start_cmd_id := Some 9\<rparr>),
               transfer_start_cmd := None\<rparr>)
   \<and> monitor_never 3
        [Step_action_done transfer_ended_world Ok, Step_next_action transfer_ended_world]
   \<and> filter (\<lambda>e'. transfer_id e' = Some 3)
        (planned_in_run
           [Step_next_action transfer_ended_world, Step_action_done transfer_ended_world Ok,
            Step_next_action transfer_ended_world] transfer_ended)
       = [(Event_of TransferFinished)\<lparr>transfer_id := Some 3, start_cmd_id := Some 9\<rparr>]
   \<and> planned_in_run
        [Step_next_action transfer_ended_world, Step_action_done transfer_ended_world Ok,
         Step_next_action transfer_ended_world] transfer_ended
       = [(Event_of TransferFinished)\<lparr>transfer_id := Some 3, start_cmd_id := Some 9\<rparr>]"
proof -
  let ?w = transfer_ended_world
  let ?e = "(Event_of TransferFinished)\<lparr>transfer_id := Some 3, start_cmd_id := Some 9\<rparr>"
  let ?s' = "transfer_ended
              \<lparr>observed_transfer := None, planned_event := Some ?e, transfer_start_cmd := None\<rparr>"
  have h: "\<not> perform_cooldown transfer_ended" "planned_event transfer_ended = None"
    "\<not> fst (set_hash (info_fingerprint transfer_ended_world) (info_changes transfer_ended))"
    "\<not> fst (set_hash (files_hash transfer_ended_world) (file_changes transfer_ended))"
    "observed_transfer transfer_ended = Some 3"
    "monitor_id transfer_ended_world \<noteq> Some 3"
    "monitor_outcome transfer_ended_world 3 = Some Outcome_Finished"
    by (simp_all add: transfer_ended_def transfer_ended_world_def quiet_planner_def
        quiet_world_def set_hash_def)
  have m: "monitor_never 3 [Step_action_done ?w Ok, Step_next_action ?w]"
    by (simp add: transfer_ended_world_def quiet_world_def)
  have i: "monitor_id transfer_ended_world = None" "transfer_start_cmd transfer_ended = Some 9"
    by (simp_all add: transfer_ended_def transfer_ended_world_def quiet_world_def)
  have e: "\<lparr>type = (case Outcome_Finished of Outcome_Finished \<Rightarrow> TransferFinished
                                   | Outcome_Error \<Rightarrow> TransferAborted
                                   | Outcome_Stopped \<Rightarrow> TransferStopped),
                  command_id = None, job_id = None, path = None, transfer_id = Some 3,
                  reason = None, info_rescan_files = False,
                  start_cmd_id = Some 9\<rparr> = ?e"
    by (simp add: Event_of_def)
  have n: "next_action ?w transfer_ended = Inr (ActEvent ?e, ?s')"
    and r: "\<forall>steps. monitor_never 3 steps \<longrightarrow>
              filter (\<lambda>e'. transfer_id e' = Some 3)
                (planned_in_run (Step_next_action ?w # steps) transfer_ended) = [?e]"
    using terminal_event_once [OF h] unfolding Let_def i e by blast+
  have x: "filter (\<lambda>e'. transfer_id e' = Some 3)
             (planned_in_run
                [Step_next_action ?w, Step_action_done ?w Ok, Step_next_action ?w]
                transfer_ended) = [?e]"
    by (rule r [THEN spec, THEN mp, OF m])
  define s1 where "s1 = action_done ?w Ok ?s'"
  have t: "type ?e \<noteq> Info"
    by (simp add: Event_of_def)
  have s1: "s1 = ?s'\<lparr>last_success := Some (now ?w), perform_cooldown := False,
             cooldown := None, failed_attempts := 0, planned_event := None,
             last_telemetry := None\<rparr>"
    unfolding s1_def by (rule action_done_Ok_event [of _ ?e]) (simp_all add: Event_of_def)
  have f1: "\<not> perform_cooldown s1" "planned_event s1 = None" "last_telemetry s1 = None"
    "observed_transfer s1 = None"
    "info_changes s1 = \<lparr>hash = 0, dirty = False\<rparr>" "file_changes s1 = \<lparr>hash = 0, dirty = False\<rparr>"
    by (simp_all add: s1 transfer_ended_def quiet_planner_def)
  have p: "probe_changes ?w s1 = (False, s1)"
    by (rule probe_changes_clean)
      (simp_all add: f1 transfer_ended_world_def quiet_world_def set_hash_def)
  have o: "observe_transfer ?w s1 = (None, s1)"
    by (rule observe_transfer_same) (simp add: f1 i)
  have n1: "next_action ?w s1 = Inr (SendTelemetry False, s1)"
    by (simp add: next_action_def f1 p o telemetry_action_def since_def)
  have np: "newly_planned transfer_ended ?s' = [?e]" "newly_planned ?s' s1 = []"
    "newly_planned s1 s1 = []"
    by (simp_all add: newly_planned_def h(2) f1)
  have run: "planned_in_run
               [Step_next_action ?w, Step_action_done ?w Ok, Step_next_action ?w]
               transfer_ended = [?e]"
    by (simp add: n s1_def [symmetric] n1 np Let_def)
  show ?thesis
    using h n m x run by blast
qed

subsection \<open>Commands\<close>

lemma length_decimal: "n < 10 ^ k \<Longrightarrow> 0 < k \<Longrightarrow> length (decimal n) \<le> k"
proof (induction n arbitrary: k rule: decimal.induct)
  case (1 n)
  show ?case
  proof (cases "n < 10")
    case True
    then show ?thesis using "1.prems"(2) by (simp add: decimal.simps [of n])
  next
    case False
    obtain j where k: "k = Suc j" using "1.prems"(2) by (cases k) simp_all
    have "0 < j" using False "1.prems"(1) k by (cases j) simp_all
    moreover have "n div 10 < 10 ^ j" using "1.prems"(1) k by (simp add: less_mult_imp_div_less mult.commute)
    ultimately have "length (decimal (n div 10)) \<le> j"
      using "1.IH" [OF False] by simp
    then show ?thesis using False k by (simp add: decimal.simps [of n])
  qed
qed

lemma length_decimal_u64: "length (decimal (unat (team :: 64 word))) \<le> 20"
proof -
  have "unat team < 2 ^ 64" using unsigned_less [of team] by simp
  also have "(2::nat) ^ 64 < 10 ^ 20" by simp
  finally show ?thesis by (intro length_decimal) simp_all
qed

lemma download_url_fits: "length (download_url_path team h) < download_buffer_len h"
  using length_decimal_u64 [of team] by (simp add: download_url_path_def download_buffer_len_def)

lemma Event_rejected_eq:
  "Event_rejected i r =
     \<lparr>type = Rejected, command_id = Some i, job_id = None, path = None, transfer_id = None,
      reason = Some r, info_rescan_files = False, start_cmd_id = None\<rparr>"
  by (simp add: Event_rejected_def Event_of_def)

lemma Event_id_eq:
  "Event_id ty i =
     \<lparr>type = ty, command_id = Some i, job_id = None, path = None, transfer_id = None,
      reason = None, info_rescan_files = False, start_cmd_id = None\<rparr>"
  by (simp add: Event_id_def Event_of_def)

text \<open>
  C6. A StartConnectDownload command (received with no event pending and no background
  command running) is handled in this order: the configuration is fetched without
  clearing its changed flag, and if it changed the command is rejected with
  \<^verbatim>\<open>Switching config\<close>; else, if TLS is on, with \<^verbatim>\<open>Encryption of downloads not supported\<close>;
  in both cases nothing else is called. Otherwise the download is started, for the path
  \<^verbatim>\<open>/p/teams/<team>/files/<hash>/raw\<close>: a Download handle is stored (the slot being free),
  \<open>transfer_start_cmd\<close> becomes the command id and Finished is planned; NoTransferSlot,
  AlreadyExists, RefusedRequest and Storage are rejected with
  \<^verbatim>\<open>Another transfer in progress\<close>, \<^verbatim>\<open>File already exists\<close>, \<^verbatim>\<open>Failed to download\<close>
  and the storage's message.
\<close>

theorem start_connect_download_checks:
  assumes "planned_event s = None" and "background_command s = None"
      and "command_data c = StartConnectDownload dest team h"
  shows
    "let cfg = fst (config w False);
         config_changed = snd (config w False);
         req = \<lparr>req_host = host cfg, req_port = port cfg,
                req_url_path = ''/p/teams/'' @ decimal (unat team) @ ''/files/'' @ h @ ''/raw'',
                req_dest_path = dest, req_token = token cfg,
                req_fingerprint = printer_info_fingerprint w,
                req_fingerprint_size = FINGERPRINT_HDR_SIZE w\<rparr>;
         calls = [Call_config False, Call_printer_info, Call_start_connect_download req];
         rejected = (\<lambda>calls r.
           Inr (calls,
                s\<lparr>planned_event :=
                    Some \<lparr>type = Rejected, command_id = Some (cmd_id c), job_id = None,
                          path = None, transfer_id = None, reason = Some r,
                          info_rescan_files = False, start_cmd_id = None\<rparr>\<rparr>))
     in command w c s =
          (if config_changed then rejected [Call_config False] ''Switching config''
           else if tls cfg
             then rejected [Call_config False] ''Encryption of downloads not supported''
           else case start_connect_download w req of
               Started d \<Rightarrow>
                 if download s = None
                 then Inr (calls,
                           s\<lparr>download := Some d,
                             planned_event :=
                               Some \<lparr>type = Finished, command_id = Some (cmd_id c),
                                     job_id = None, path = None, transfer_id = None,
                                     reason = None, info_rescan_files = False,
                                     start_cmd_id = None\<rparr>,
                             transfer_start_cmd := Some (cmd_id c)\<rparr>)
                 else Inl AssertionFailed
             | NoTransferSlot \<Rightarrow> rejected calls ''Another transfer in progress''
             | AlreadyExists \<Rightarrow> rejected calls ''File already exists''
             | RefusedRequest \<Rightarrow> rejected calls ''Failed to download''
             | Storage msg \<Rightarrow> rejected calls msg)"
proof -
  have "command w c s = command_StartConnectDownload w c dest team h s"
    using assms by (simp add: command_def command_visit_def)
  then show ?thesis
    using download_url_fits [of team h]
    by (simp add: command_StartConnectDownload_def Let_def Event_rejected_eq Event_id_eq
        download_url_path_def split: prod.splits DownloadResult.splits)
qed

text \<open>Scenario 6 of the spec: team 17, hash \<^verbatim>\<open>abc\<close>, a plain-text unchanged
  configuration.\<close>

theorem start_connect_download_checks_witness:
  "planned_event quiet_planner = None \<and> background_command quiet_planner = None
   \<and> command_data \<lparr>cmd_id = 5, command_data = StartConnectDownload ''/usb/f.gco'' 17 ''abc''\<rparr>
       = StartConnectDownload ''/usb/f.gco'' 17 ''abc''
   \<and> command download_world
         \<lparr>cmd_id = 5, command_data = StartConnectDownload ''/usb/f.gco'' 17 ''abc''\<rparr>
         quiet_planner
       = Inr ([Call_config False, Call_printer_info,
               Call_start_connect_download
                 \<lparr>req_host = ''connect.example'', req_port = 80,
                  req_url_path = ''/p/teams/17/files/abc/raw'', req_dest_path = ''/usb/f.gco'',
                  req_token = ''token'', req_fingerprint = ''fingerprint'',
                  req_fingerprint_size = 16\<rparr>],
              quiet_planner
                \<lparr>download := Some (Download 1),
                 planned_event := Some (Event_id Finished 5),
                 transfer_start_cmd := Some 5\<rparr>)"
proof -
  let ?c = "\<lparr>cmd_id = 5, command_data = StartConnectDownload ''/usb/f.gco'' 17 ''abc''\<rparr>"
  have h: "planned_event quiet_planner = None" "background_command quiet_planner = None"
    "command_data ?c = StartConnectDownload ''/usb/f.gco'' 17 ''abc''"
    by (simp_all add: quiet_planner_def)
  have d: "decimal 17 = ''17''"
    by (simp add: decimal.simps)
  have w: "config download_world False
             = (\<lparr>host = ''connect.example'', port = 80, token = ''token'', tls = False\<rparr>, False)"
    "printer_info_fingerprint download_world = ''fingerprint''"
    "FINGERPRINT_HDR_SIZE download_world = 16"
    "start_connect_download download_world = (\<lambda>_. Started (Download 1))"
    by (simp_all add: download_world_def quiet_world_def)
  have n: "download quiet_planner = None"
    by (simp add: quiet_planner_def)
  show ?thesis
    using h start_connect_download_checks [OF h, of download_world]
    by (simp add: Let_def d w n Event_id_eq)
qed

text \<open>
  C8. While a background command is active, \<^verbatim>\<open>Planner::command\<close> calls no collaborator
  and changes nothing but \<open>planned_event\<close>, which becomes Accepted with the command's id
  for ProcessingThisCommand and Rejected with the command's id and no reason for every
  other command. (With an event pending the assertion at the top of the function fails
  and nothing is changed at all.)
\<close>

theorem command_while_background_command:
  assumes "background_command s \<noteq> None"
  shows "command w c s =
           (if planned_event s \<noteq> None then Inl AssertionFailed
            else Inr ([],
                      s\<lparr>planned_event :=
                          Some \<lparr>type = (if command_data c = ProcessingThisCommand
                                         then Accepted else Rejected),
                                command_id = Some (cmd_id c), job_id = None, path = None,
                                transfer_id = None, reason = None, info_rescan_files = False,
                                start_cmd_id = None\<rparr>\<rparr>))"
  using assms by (simp add: command_def Event_id_eq)

text \<open>A StartPrint command and the repeated command itself, while G-code runs.\<close>

theorem command_while_background_command_witness:
  "background_command gcode_running \<noteq> None
   \<and> command quiet_world \<lparr>cmd_id = 8, command_data = StartPrint ''/usb/x.gco''\<rparr> gcode_running
       = Inr ([], gcode_running\<lparr>planned_event := Some (Event_id Rejected 8)\<rparr>)
   \<and> command quiet_world \<lparr>cmd_id = 7, command_data = ProcessingThisCommand\<rparr> gcode_running
       = Inr ([], gcode_running\<lparr>planned_event := Some (Event_id Accepted 7)\<rparr>)"
proof -
  have h: "background_command gcode_running \<noteq> None"
    by (simp add: gcode_running_def)
  have p: "planned_event gcode_running = None"
    by (simp add: gcode_running_def quiet_planner_def)
  show ?thesis
    using h command_while_background_command [OF h, of quiet_world "\<lparr>cmd_id = 8, command_data = StartPrint ''/usb/x.gco''\<rparr>"]
      command_while_background_command [OF h, of quiet_world "\<lparr>cmd_id = 7, command_data = ProcessingThisCommand\<rparr>"]
    by (simp add: p Event_id_eq)
qed

subsection \<open>The power-cycle supervisor\<close>

lemmas usb_defs =
  usb_step_def io_error_def port_disabled_def media_state_error_def msc_active_def
  restart_timer_callback_def

lemma usb_inv_init: "usb_inv init"
  by (simp add: usb_inv_def init_def)

lemma usb_inv_step: "usb_inv u \<Longrightarrow> usb_inv (snd (usb_step ev u))"
  by (cases ev; cases "phase u")
    (auto simp: usb_inv_def usb_defs Let_def split: option.splits)

lemma usb_inv_run: "usb_inv u \<Longrightarrow> usb_inv (usb_run evs u)"
  by (induction evs arbitrary: u) (simp_all add: usb_inv_step)

lemma usb_transition:
  assumes "usb_inv u"
  shows "(phase (snd (usb_step ev u)) = phase u
     \<or> (phase u = idle \<and> phase (snd (usb_step ev u)) = power_off \<and> ev = TimerExpired
          \<and> restart_timer u = Some 10 \<and> fst (usb_step ev u) = [USBH_Stop]
          \<and> restart_timer (snd (usb_step ev u)) = Some 150)
     \<or> (phase u = power_off \<and> phase (snd (usb_step ev u)) = power_on \<and> ev = TimerExpired
          \<and> restart_timer u = Some 150 \<and> fst (usb_step ev u) = [USBH_Start]
          \<and> restart_timer (snd (usb_step ev u)) = Some 5000)
     \<or> (phase u = power_on \<and> phase (snd (usb_step ev u)) = idle
          \<and> (ev = TimerExpired \<and> restart_timer u = Some 5000
               \<or> ev = MscActive \<and> printing_paused u)
          \<and> restart_timer (snd (usb_step ev u)) = None))"
  using assms
  by (cases ev; cases "phase u")
    (auto simp: usb_inv_def usb_defs Let_def split: option.splits)

lemma usb_trigger:
  "ev = IoError \<or> ev = PortDisabled \<Longrightarrow>
     usb_step ev u = ([], if phase u = idle then u\<lparr>restart_timer := Some 10\<rparr> else u)"
  by (auto simp: usb_defs)

text \<open>
  C9. In every state the supervisor reaches from its initial state, a step changes the
  phase only from idle to power_off (the restart timer expired after 10 ms; the USB host
  stack is stopped and the timer set to 150 ms), from power_off to power_on (the timer
  expired after 150 ms; the stack is started and the timer set to 5000 ms), or from
  power_on to idle (the timer expired after 5000 ms, or MSC became active while the print
  was flagged paused). An I/O error or a disabled port sets the timer to 10 ms when the
  phase is idle and changes nothing in any other phase.
\<close>

theorem phase_transitions:
  "(let u = usb_run evs init; calls = fst (usb_step ev u); u' = snd (usb_step ev u) in
     (phase u' = phase u
     \<or> (phase u = idle \<and> phase u' = power_off \<and> ev = TimerExpired
          \<and> restart_timer u = Some 10 \<and> calls = [USBH_Stop] \<and> restart_timer u' = Some 150)
     \<or> (phase u = power_off \<and> phase u' = power_on \<and> ev = TimerExpired
          \<and> restart_timer u = Some 150 \<and> calls = [USBH_Start] \<and> restart_timer u' = Some 5000)
     \<or> (phase u = power_on \<and> phase u' = idle
          \<and> (ev = TimerExpired \<and> restart_timer u = Some 5000
               \<or> ev = MscActive \<and> printing_paused u)
          \<and> restart_timer u' = None))
   \<and> (ev = IoError \<or> ev = PortDisabled \<longrightarrow>
        calls = [] \<and> u' = (if phase u = idle then u\<lparr>restart_timer := Some 10\<rparr> else u)))"
proof -
  have "usb_inv (usb_run evs init)"
    using usb_inv_init by (rule usb_inv_run)
  from usb_transition [OF this, of ev] usb_trigger [of ev "usb_run evs init"]
  show ?thesis unfolding Let_def by auto
qed

text \<open>An I/O error in the initial state arms the timer; its expiry switches the power off.\<close>

theorem phase_transitions_witness:
  "usb_step IoError (usb_run [] init) = ([], init\<lparr>restart_timer := Some 10\<rparr>)
   \<and> phase (usb_run [IoError] init) = idle
   \<and> phase (snd (usb_step TimerExpired (usb_run [IoError] init))) = power_off
   \<and> fst (usb_step TimerExpired (usb_run [IoError] init)) = [USBH_Stop]
   \<and> usb_step PortDisabled (usb_run [IoError, TimerExpired] init)
       = ([], usb_run [IoError, TimerExpired] init)"
  using phase_transitions [of "[]" IoError] phase_transitions [of "[IoError]" TimerExpired]
    phase_transitions [of "[IoError, TimerExpired]" PortDisabled]
  by (simp add: usb_defs init_def)

text \<open>
  C10. \<open>printing_paused\<close> is set by \<^verbatim>\<open>media_state_error\<close> and cleared only by
  \<^verbatim>\<open>msc_active\<close> in phase power_on with the flag set, which is also the only step that
  asks for the print to resume, and which returns the supervisor to idle with the timer
  stopped. The timeout in phase power_on returns to idle and raises the USBFlashDiskError
  warning, and leaves the flag set.
\<close>

theorem printing_paused_flag:
  "(let calls = fst (usb_step ev u); u' = snd (usb_step ev u) in
     printing_paused u' =
       (if ev = MediaStateError then True
        else if ev = MscActive \<and> phase u = power_on \<and> printing_paused u then False
        else printing_paused u)
   \<and> (marlin_client_print_resume \<in> set calls
        \<longleftrightarrow> ev = MscActive \<and> phase u = power_on \<and> printing_paused u)
   \<and> (ev = MscActive \<and> phase u = power_on \<and> printing_paused u \<longrightarrow>
        phase u' = idle \<and> restart_timer u' = None)
   \<and> (ev = TimerExpired \<and> restart_timer u \<noteq> None \<and> phase u = power_on \<and> printing_paused u
        \<longrightarrow> phase u' = idle \<and> printing_paused u'
          \<and> marlin_client_set_warning USBFlashDiskError \<in> set calls))"
  by (cases ev; cases "phase u")
    (auto simp: usb_defs Let_def split: option.splits)


text \<open>The drive comes back in time, or the 5000 ms pass.\<close>

theorem printing_paused_flag_witness:
  "printing_paused (snd (usb_step MediaStateError init))
   \<and> phase waiting_for_drive = power_on \<and> printing_paused waiting_for_drive
   \<and> \<not> printing_paused (snd (usb_step MscActive waiting_for_drive))
   \<and> phase (snd (usb_step MscActive waiting_for_drive)) = idle
   \<and> fst (usb_step MscActive waiting_for_drive) = [marlin_client_init, marlin_client_print_resume]
   \<and> restart_timer waiting_for_drive \<noteq> None
   \<and> printing_paused (snd (usb_step TimerExpired waiting_for_drive))
   \<and> phase (snd (usb_step TimerExpired waiting_for_drive)) = idle
   \<and> fst (usb_step TimerExpired waiting_for_drive)
       = [marlin_client_init, marlin_client_set_warning USBFlashDiskError]"
  using printing_paused_flag [of MediaStateError init]
    printing_paused_flag [of MscActive waiting_for_drive]
    printing_paused_flag [of TimerExpired waiting_for_drive]
  by (simp add: usb_defs init_def waiting_for_drive_def)

end
